theory Spec2Isabelle
  imports Main "HOL-Library.AList" "HOL-Library.Sublist"
begin

section \<open>The C++ standard library functions the coordinator uses\<close>

text \<open>
  \<open>std::to_string(int)\<close> prints a decimal numeral, with a leading minus sign for a
  negative number. \<open>std::stoi\<close> is \<open>strtol\<close> in base 10 followed by a range check:
  it skips leading white space, reads an optional sign and the longest run of digits,
  ignores what follows, throws \<open>std::invalid_argument\<close> when there is no digit and
  \<open>std::out_of_range\<close> when the number does not fit an \<open>int\<close> (32 bits).
\<close>

datatype error = runtime_error string | invalid_argument string | out_of_range string

definition digit_char :: "nat \<Rightarrow> char" where
  "digit_char d = ''0123456789'' ! d"

fun nat_to_string :: "nat \<Rightarrow> string" where
  "nat_to_string n =
     (if n < 10 then [digit_char n] else nat_to_string (n div 10) @ [digit_char (n mod 10)])"

declare nat_to_string.simps [simp del]

definition to_string :: "int \<Rightarrow> string" where
  "to_string i = (if i < 0 then CHR ''-'' # nat_to_string (nat (- i)) else nat_to_string (nat i))"

definition isspace :: "char \<Rightarrow> bool" where
  "isspace c = (c \<in> set [CHR '' '', CHR 0x09, CHR 0x0A, CHR 0x0B, CHR 0x0C, CHR 0x0D])"

definition isdigit :: "char \<Rightarrow> bool" where
  "isdigit c = (c \<in> set ''0123456789'')"

definition digit_val :: "char \<Rightarrow> int" where
  "digit_val c = of_char c - 48"

definition digits_val :: "string \<Rightarrow> int" where
  "digits_val ds = foldl (\<lambda>a c. 10 * a + digit_val c) 0 ds"

definition stoi :: "string \<Rightarrow> error + int" where
  "stoi str =
     (let s1 = dropWhile isspace str;
          neg = (case s1 of [] \<Rightarrow> False | c # r \<Rightarrow> c = CHR ''-'');
          s2 = (case s1 of [] \<Rightarrow> s1 | c # r \<Rightarrow> if c = CHR ''-'' \<or> c = CHR ''+'' then r else s1);
          ds = takeWhile isdigit s2
      in if ds = [] then Inl (invalid_argument ''stoi'')
         else let v = (if neg then - digits_val ds else digits_val ds)
              in if v < - 2147483648 \<or> 2147483647 < v then Inl (out_of_range ''stoi'')
                 else Inr v)"

section \<open>The shared file system\<close>

text \<open>
  The processes of a group share nothing but a file system. The model keeps the regular
  files that back the queues (a file is the list of its lines), the directories, and a
  table of the paths at which \<open>mkdir\<close> fails for a reason of the operating system
  (permissions, a missing parent, a full disk). Association lists keep the state
  comparable by evaluation. \<open>mkdir\<close> returns \<open>None\<close> for the result 0 and
  \<open>Some e\<close> for the result -1 with \<open>errno = e\<close>.
\<close>

datatype errno = EEXIST | EACCES | ENOENT | ENOSPC | ENOTDIR | EROFS

record world =
  files :: "(string \<times> string list) list"
  dirs :: "string list"
  mkdir_errors :: "(string \<times> errno) list"

definition mkdir :: "string \<Rightarrow> world \<Rightarrow> errno option \<times> world" where
  "mkdir path w =
     (case map_of (mkdir_errors w) path of
        Some e \<Rightarrow> (Some e, w)
      | None \<Rightarrow>
          if path \<in> set (dirs w) \<or> map_of (files w) path \<noteq> None then (Some EEXIST, w)
          else (None, w\<lparr>dirs := path # dirs w\<rparr>))"

definition unlink :: "string \<Rightarrow> world \<Rightarrow> world" where
  "unlink path w = w\<lparr>files := AList.delete path (files w)\<rparr>"

definition getenv :: "(string \<times> string) list \<Rightarrow> string \<Rightarrow> string option" where
  "getenv env name = map_of env name"

subsection \<open>The persistent queue (class FileStack)\<close>

text \<open>
  Modelled from the spec: class \<open>FileStack\<close> (filestack.h) is not part of the sources
  at hand; its operations follow the persistent queue contract of the specification.
  A queue is named by its backing file and holds the lines of that file; a file that
  does not exist holds no value. \<open>push\<close> appends, \<open>pop\<close> removes and returns the
  oldest value or reports that the queue is empty, \<open>size\<close> counts the stored values,
  \<open>clear\<close> removes all of them. The two polls block; the model gives the condition
  under which a poll returns: the expected value has been observed in the queue
  (\<open>poll_query\<close>), the queue holds at least \<open>n\<close> values (\<open>poll_size\<close>).
  Opening a queue on a path stores no value.
\<close>

definition contents :: "world \<Rightarrow> string \<Rightarrow> string list" where
  "contents w f = (case map_of (files w) f of None \<Rightarrow> [] | Some xs \<Rightarrow> xs)"

definition store :: "string \<Rightarrow> string list \<Rightarrow> world \<Rightarrow> world" where
  "store f xs w = w\<lparr>files := AList.update f xs (files w)\<rparr>"

definition FileStack_push :: "string \<Rightarrow> string \<Rightarrow> world \<Rightarrow> world" where
  "FileStack_push f v w = store f (contents w f @ [v]) w"

definition FileStack_pop :: "string \<Rightarrow> world \<Rightarrow> string option \<times> world" where
  "FileStack_pop f w =
     (case contents w f of [] \<Rightarrow> (None, w) | x # xs \<Rightarrow> (Some x, store f xs w))"

definition FileStack_size :: "string \<Rightarrow> world \<Rightarrow> nat" where
  "FileStack_size f w = length (contents w f)"

definition FileStack_clear :: "string \<Rightarrow> world \<Rightarrow> world" where
  "FileStack_clear f w = store f [] w"

definition FileStack_poll_query :: "string \<Rightarrow> string \<Rightarrow> world \<Rightarrow> bool" where
  "FileStack_poll_query f v w = (v \<in> set (contents w f))"

definition FileStack_poll_size :: "string \<Rightarrow> nat \<Rightarrow> world \<Rightarrow> bool" where
  "FileStack_poll_size f n w = (n \<le> length (contents w f))"

section \<open>The coordinator object (class Parallelizer)\<close>

text \<open>
  The fields of the class. \<open>fs_map\<close> maps a tag to the queue opened for it, which the
  model identifies with its backing file. The field \<open>id\<close> is \<open>id_str\<close> here.
  The counters are C++ \<open>int\<close>s that are only ever incremented from 0; an overflow is
  undefined behaviour and needs more than two thousand million barrier calls, so the
  model counts in unbounded integers.
\<close>

record Parallelizer =
  work_directory :: string
  barrier_file :: string
  n_registered :: int
  master_flag :: bool
  i_barrier :: int
  id_str :: string
  rank :: int
  initialized :: bool
  fs_map :: "(string \<times> string) list"
  continuous_cleanup_list :: "string list"
  final_cleanup_list :: "string list"

text \<open>
  What the header parallelizer.h declares is not part of the sources at hand and is a
  parameter of the model: the tag constants, the default of the suffix argument of
  \<open>create_stack\<close>, and the path utility \<open>join_path\<close>.
\<close>

record config =
  LOG :: string
  COMMAND :: string
  WORKERS :: string
  REGISTER :: string
  BARRIER :: string
  sfx_default :: string
  join_path :: "string \<Rightarrow> string \<Rightarrow> string"

text \<open>
  The constructor initialises four fields. The header decides what \<open>rank\<close> and
  \<open>initialized\<close> hold in a new object; they are the two arguments.
\<close>

definition new_Parallelizer :: "int \<Rightarrow> bool \<Rightarrow> Parallelizer" where
  "new_Parallelizer rank0 initialized0 =
     \<lparr>work_directory = ''libworkstack'', barrier_file = [], n_registered = 0,
      master_flag = True, i_barrier = 0, id_str = [], rank = rank0,
      initialized = initialized0, fs_map = [], continuous_cleanup_list = [],
      final_cleanup_list = []\<rparr>"

definition get_id :: "Parallelizer \<Rightarrow> string" where
  "get_id s = id_str s"

definition get_rank :: "Parallelizer \<Rightarrow> int" where
  "get_rank s = rank s"

definition get_work_directory :: "Parallelizer \<Rightarrow> string" where
  "get_work_directory s = work_directory s"

definition get_n_registered :: "Parallelizer \<Rightarrow> int" where
  "get_n_registered s = n_registered s"

definition is_master :: "Parallelizer \<Rightarrow> bool" where
  "is_master s = master_flag s"

definition get_barrier_file_name :: "Parallelizer \<Rightarrow> string \<Rightarrow> string \<Rightarrow> int \<Rightarrow> string" where
  "get_barrier_file_name s step tag i =
     barrier_file s @ ''_'' @ step @ ''_'' @ tag @ ''_'' @ to_string i"

subsection \<open>The queue registry\<close>

definition create_stack_from_file ::
  "string \<Rightarrow> string \<Rightarrow> Parallelizer \<Rightarrow> bool \<times> Parallelizer" where
  "create_stack_from_file tag file_name s =
     (if map_of (fs_map s) tag = None
      then (True, s\<lparr>fs_map := fs_map s @ [(tag, file_name)],
                    final_cleanup_list := final_cleanup_list s @ [file_name]\<rparr>)
      else (False, s))"

definition create_stack ::
  "config \<Rightarrow> string \<Rightarrow> string \<Rightarrow> Parallelizer \<Rightarrow> bool \<times> Parallelizer" where
  "create_stack cfg tag sfx s =
     (if map_of (fs_map s) tag = None
      then (let sfx1 = (if 0 < length sfx then ''_'' @ sfx else sfx);
                file_name = join_path cfg (work_directory s) (tag @ sfx1)
            in create_stack_from_file tag file_name s)
      else (False, s))"

definition get_stack :: "string \<Rightarrow> Parallelizer \<Rightarrow> error + string" where
  "get_stack tag s =
     (case map_of (fs_map s) tag of
        None \<Rightarrow> Inl (out_of_range ''map::at'')
      | Some f \<Rightarrow> Inr f)"

definition delete_stack :: "string \<Rightarrow> Parallelizer \<Rightarrow> bool \<times> Parallelizer" where
  "delete_stack tag s =
     (if map_of (fs_map s) tag \<noteq> None
      then (True, s\<lparr>fs_map := AList.delete tag (fs_map s)\<rparr>)
      else (False, s))"

subsection \<open>Cleanup\<close>

text \<open>
  \<open>clean\<close> unlinks every file of the list, ignoring the results, and empties the
  list. The destructor cleans the continuous list; its call on the final list is
  commented out in the source.
\<close>

definition clean :: "string list \<Rightarrow> world \<Rightarrow> bool \<times> string list \<times> world" where
  "clean file_list w = (True, [], fold unlink file_list w)"

definition destroy :: "Parallelizer \<times> world \<Rightarrow> Parallelizer \<times> world" where
  "destroy sw =
     (case sw of (s, w) \<Rightarrow>
        (case clean (continuous_cleanup_list s) w of
           (_, l, w1) \<Rightarrow> (s\<lparr>continuous_cleanup_list := l\<rparr>, w1)))"

subsection \<open>Setup\<close>

text \<open>
  \<open>init\<close> runs in three blocks and a tail. The first block composes the work
  directory from the caller's override and the job id of the scheduler.
\<close>

definition init_work_directory ::
  "config \<Rightarrow> (string \<times> string) list \<Rightarrow> string \<Rightarrow> Parallelizer \<Rightarrow> Parallelizer" where
  "init_work_directory cfg env tempdir s =
     (let s1 = (if 0 < length tempdir
                then s\<lparr>work_directory := join_path cfg tempdir (work_directory s)\<rparr>
                else s)
      in case getenv env ''SLURM_JOBID'' of
           Some env_str \<Rightarrow> s1\<lparr>work_directory := work_directory s1 @ ''_'' @ env_str\<rparr>
         | None \<Rightarrow> s1)"

text \<open>
  The second block creates the directory and tolerates \<open>EEXIST\<close>; any other failure
  throws a \<open>runtime_error\<close> whose message carries the path.
\<close>

definition init_mkdir :: "Parallelizer \<Rightarrow> world \<Rightarrow> error + world" where
  "init_mkdir s w =
     (case mkdir (work_directory s) w of
        (None, w1) \<Rightarrow> Inr w1
      | (Some e, w1) \<Rightarrow>
          if e = EEXIST then Inr w1
          else Inl (runtime_error (''could not create working directory '' @ work_directory s
                                   @ '' for parallelizer'')))"

definition init_dir ::
  "config \<Rightarrow> (string \<times> string) list \<Rightarrow> string \<Rightarrow> Parallelizer \<times> world
     \<Rightarrow> error + Parallelizer \<times> world" where
  "init_dir cfg env tempdir sw =
     (case sw of (s, w) \<Rightarrow>
        (let s1 = init_work_directory cfg env tempdir s
         in case init_mkdir s1 w of Inl e \<Rightarrow> Inl e | Inr w1 \<Rightarrow> Inr (s1, w1)))"

text \<open>
  The third block resolves the rank: the loop over \<open>env_opts\<close> stops at the first
  variable that is set and parses it with \<open>stoi\<close>; a variable that is not set leaves
  \<open>rank\<close> as it was. A negative rank throws.
\<close>

definition env_opts :: "string list" where
  "env_opts = [''SLURM_PROCID'', ''PARALLEL_RANK'']"

fun scan_rank :: "(string \<times> string) list \<Rightarrow> string list \<Rightarrow> int \<Rightarrow> error + int" where
  "scan_rank env [] r = Inr r"
| "scan_rank env (v # vs) r =
     (case getenv env v of
        Some env_str \<Rightarrow> stoi env_str
      | None \<Rightarrow> scan_rank env vs r)"

definition rank_msg :: string where
  "rank_msg = ''parallel: Could not determine the parallel rank. Please set it via one of the environment variables ''
       @ env_opts ! 0 @ '', '' @ env_opts ! 1 @ ''.''"

definition init_rank :: "(string \<times> string) list \<Rightarrow> Parallelizer \<Rightarrow> error + Parallelizer" where
  "init_rank env s =
     (case scan_rank env env_opts (rank s) of
        Inl e \<Rightarrow> Inl e
      | Inr r \<Rightarrow>
          if r < 0 then Inl (runtime_error rank_msg)
          else Inr (s\<lparr>rank := r, master_flag := (if r = 0 then True else False),
                      id_str := ''rank_'' @ to_string r\<rparr>))"

subsection \<open>Registration\<close>

text \<open>
  While a process sleeps the others run. What matters to registration is what they
  append to the register queue meanwhile: the list \<open>arrived\<close>.
\<close>

definition sleep :: "string \<Rightarrow> string list \<Rightarrow> world \<Rightarrow> world" where
  "sleep f arrived w = fold (FileStack_push f) arrived w"

text \<open>
  The drain loop of the coordinator. It looks both queues up on every round, as the source
  does, and ends when \<open>pop\<close> reports the register queue empty. Were both tags bound to
  one file the loop would refill what it drains, so the loop is a partial function.
\<close>

partial_function (option) drain ::
  "config \<Rightarrow> Parallelizer \<Rightarrow> world \<Rightarrow> (error + Parallelizer \<times> world) option" where
  "drain cfg s w =
     (case get_stack (REGISTER cfg) s of
        Inl e \<Rightarrow> Some (Inl e)
      | Inr rf \<Rightarrow>
          (case FileStack_pop rf w of
             (None, w1) \<Rightarrow> Some (Inr (s, w1))
           | (Some line, w1) \<Rightarrow>
               (case get_stack (WORKERS cfg) s of
                  Inl e \<Rightarrow> Some (Inl e)
                | Inr wkf \<Rightarrow>
                    drain cfg (s\<lparr>n_registered := n_registered s + 1\<rparr>)
                      (FileStack_push wkf line w1))))"

declare drain.simps [code]

definition register_workers ::
  "config \<Rightarrow> string list \<Rightarrow> Parallelizer \<times> world
     \<Rightarrow> (error + bool \<times> Parallelizer \<times> world) option" where
  "register_workers cfg arrived sw =
     (case sw of (s, w) \<Rightarrow>
        (case get_stack (REGISTER cfg) s of
           Inl e \<Rightarrow> Some (Inl e)
         | Inr rf \<Rightarrow>
             (let w1 = FileStack_push rf (id_str s) w;
                  w2 = sleep rf arrived w1
              in if is_master s
                 then (case drain cfg s w2 of
                         None \<Rightarrow> None
                       | Some (Inl e) \<Rightarrow> Some (Inl e)
                       | Some (Inr (s1, w3)) \<Rightarrow> Some (Inr (True, s1, w3)))
                 else Some (Inr (True, s, w2)))))"

text \<open>
  The tail of \<open>init\<close>: the four queues, the barrier prefix, the clearing of the
  queues, registration. \<open>arrived1\<close> and \<open>arrived2\<close> are what the other processes
  append to the register queue during the two sleeps.
\<close>

definition clear_stack :: "string \<Rightarrow> Parallelizer \<times> world \<Rightarrow> error + Parallelizer \<times> world" where
  "clear_stack tag sw =
     (case sw of (s, w) \<Rightarrow>
        (case get_stack tag s of
           Inl e \<Rightarrow> Inl e
         | Inr f \<Rightarrow> Inr (s, FileStack_clear f w)))"

definition init_queues :: "config \<Rightarrow> Parallelizer \<Rightarrow> Parallelizer" where
  "init_queues cfg s =
     (let s1 = snd (create_stack cfg (LOG cfg) (id_str s) s);
          s2 = snd (create_stack cfg (COMMAND cfg) (sfx_default cfg) s1);
          s3 = snd (create_stack cfg (WORKERS cfg) (sfx_default cfg) s2);
          s4 = snd (create_stack cfg (REGISTER cfg) (sfx_default cfg) s3)
      in s4\<lparr>barrier_file := join_path cfg (work_directory s4) (BARRIER cfg)\<rparr>)"

definition init_clear :: "config \<Rightarrow> Parallelizer \<times> world \<Rightarrow> error + Parallelizer \<times> world" where
  "init_clear cfg sw =
     (case clear_stack (LOG cfg) sw of
        Inl e \<Rightarrow> Inl e
      | Inr sw1 \<Rightarrow>
          if is_master (fst sw1)
          then (case clear_stack (COMMAND cfg) sw1 of
                  Inl e \<Rightarrow> Inl e
                | Inr sw2 \<Rightarrow>
                    (case clear_stack (WORKERS cfg) sw2 of
                       Inl e \<Rightarrow> Inl e
                     | Inr sw3 \<Rightarrow> clear_stack (REGISTER cfg) sw3))
          else Inr sw1)"

definition init ::
  "config \<Rightarrow> (string \<times> string) list \<Rightarrow> string list \<Rightarrow> string list \<Rightarrow> string
     \<Rightarrow> Parallelizer \<times> world \<Rightarrow> (error + Parallelizer \<times> world) option" where
  "init cfg env arrived1 arrived2 tempdir sw =
     (case init_dir cfg env tempdir sw of
        Inl e \<Rightarrow> Some (Inl e)
      | Inr (s1, w1) \<Rightarrow>
          (case init_rank env s1 of
             Inl e \<Rightarrow> Some (Inl e)
           | Inr s2 \<Rightarrow>
               (case init_clear cfg (init_queues cfg s2, w1) of
                  Inl e \<Rightarrow> Some (Inl e)
                | Inr (s3, w3) \<Rightarrow>
                    (case get_stack (REGISTER cfg) s3 of
                       Inl e \<Rightarrow> Some (Inl e)
                     | Inr rf \<Rightarrow>
                         (case register_workers cfg arrived2 (s3, sleep rf arrived1 w3) of
                            None \<Rightarrow> None
                          | Some (Inl e) \<Rightarrow> Some (Inl e)
                          | Some (Inr (_, s4, w4)) \<Rightarrow>
                              Some (Inr (s4\<lparr>initialized := True\<rparr>, w4)))))))"

section \<open>The barrier\<close>

text \<open>
  \<open>barrier\<close> blocks in three polls while the other processes run, so the model is a
  transition system: one step per operation on the shared file system, labelled with
  the source line it stands for. A \<open>frame\<close> is the activation of one call: the
  label to run next, the argument \<open>tag\<close> and the local variables. A poll that does
  not return yet has no step. Each step reports what it did to the file system as
  events.
\<close>

datatype label =
  Idle | L146 | L159 | L160 | L162 | L163 | L169 | L170 | L171 | L173 | L178 | L179 | L183
  | Ret bool | Thrown error

record frame =
  pc :: label
  tag :: string
  cmd_file_name :: string
  ack_file_name :: string
  n_workers :: nat
  file_list :: "string list"

datatype event =
  Cleared string
  | Pushed string string
  | Observed string string
  | SizeReached string nat
  | Unlinked string

definition msg :: string where
  "msg = ''WAIT''"

definition msg_ok :: string where
  "msg_ok = ''GOON''"

definition call_barrier :: "string \<Rightarrow> frame" where
  "call_barrier t =
     \<lparr>pc = L146, tag = t, cmd_file_name = [], ack_file_name = [], n_workers = 0,
      file_list = []\<rparr>"

text \<open>
  \<^item> \<open>L146\<close>: the guard on \<open>initialized\<close>, then the two file names and queues.
  \<^item> \<open>L159\<close>, \<open>L160\<close>: the coordinator clears the ack queue and pushes \<open>WAIT\<close>.
  \<^item> \<open>L162\<close>, \<open>L163\<close>: every process polls for \<open>WAIT\<close> and pushes its id.
  \<^item> \<open>L169\<close> to \<open>L171\<close>: the coordinator reads the size of the workers queue, polls
    the ack queue for that size and pushes \<open>GOON\<close>.
  \<^item> \<open>L173\<close>: every process polls for \<open>GOON\<close>.
  \<^item> \<open>L178\<close>, \<open>L179\<close>: the coordinator runs \<open>clean\<close> on the continuous list (one
    \<open>unlink\<close> per step, \<open>file_list\<close> being what the loop has left to visit) and
    records the two file names of this call.
  \<^item> \<open>L183\<close>: the step index is incremented and the call returns true.
\<close>

definition barrier_step ::
  "config \<Rightarrow> Parallelizer \<times> frame \<Rightarrow> world
     \<Rightarrow> ((Parallelizer \<times> frame) \<times> world \<times> event list) option" where
  "barrier_step cfg sf w =
     (case sf of (s, fr) \<Rightarrow>
        (case pc fr of
           Idle \<Rightarrow> None
         | L146 \<Rightarrow>
             if \<not> initialized s then Some ((s, fr\<lparr>pc := Ret False\<rparr>), w, [])
             else Some ((s, fr\<lparr>pc := (if is_master s then L159 else L162),
                               cmd_file_name := get_barrier_file_name s ''cmd'' (tag fr) (i_barrier s),
                               ack_file_name := get_barrier_file_name s ''ack'' (tag fr) (i_barrier s)\<rparr>),
                        w, [])
         | L159 \<Rightarrow>
             Some ((s, fr\<lparr>pc := L160\<rparr>), FileStack_clear (ack_file_name fr) w,
                   [Cleared (ack_file_name fr)])
         | L160 \<Rightarrow>
             Some ((s, fr\<lparr>pc := L162\<rparr>), FileStack_push (cmd_file_name fr) msg w,
                   [Pushed (cmd_file_name fr) msg])
         | L162 \<Rightarrow>
             if FileStack_poll_query (cmd_file_name fr) msg w
             then Some ((s, fr\<lparr>pc := L163\<rparr>), w, [Observed (cmd_file_name fr) msg])
             else None
         | L163 \<Rightarrow>
             Some ((s, fr\<lparr>pc := (if is_master s then L169 else L173)\<rparr>),
                   FileStack_push (ack_file_name fr) (id_str s) w,
                   [Pushed (ack_file_name fr) (id_str s)])
         | L169 \<Rightarrow>
             (case get_stack (WORKERS cfg) s of
                Inl e \<Rightarrow> Some ((s, fr\<lparr>pc := Thrown e\<rparr>), w, [])
              | Inr wkf \<Rightarrow> Some ((s, fr\<lparr>pc := L170, n_workers := FileStack_size wkf w\<rparr>), w, []))
         | L170 \<Rightarrow>
             if FileStack_poll_size (ack_file_name fr) (n_workers fr) w
             then Some ((s, fr\<lparr>pc := L171\<rparr>), w, [SizeReached (ack_file_name fr) (n_workers fr)])
             else None
         | L171 \<Rightarrow>
             Some ((s, fr\<lparr>pc := L173\<rparr>), FileStack_push (cmd_file_name fr) msg_ok w,
                   [Pushed (cmd_file_name fr) msg_ok])
         | L173 \<Rightarrow>
             if FileStack_poll_query (cmd_file_name fr) msg_ok w
             then Some ((s, fr\<lparr>pc := (if is_master s then L178 else L183),
                               file_list := (if is_master s then continuous_cleanup_list s
                                             else file_list fr)\<rparr>),
                        w, [Observed (cmd_file_name fr) msg_ok])
             else None
         | L178 \<Rightarrow>
             (case file_list fr of
                x # xs \<Rightarrow> Some ((s, fr\<lparr>file_list := xs\<rparr>), unlink x w, [Unlinked x])
              | [] \<Rightarrow> Some ((s\<lparr>continuous_cleanup_list := []\<rparr>, fr\<lparr>pc := L179\<rparr>), w, []))
         | L179 \<Rightarrow>
             Some ((s\<lparr>continuous_cleanup_list :=
                        continuous_cleanup_list s @ [cmd_file_name fr, ack_file_name fr]\<rparr>,
                    fr\<lparr>pc := L183\<rparr>), w, [])
         | L183 \<Rightarrow> Some ((s\<lparr>i_barrier := i_barrier s + 1\<rparr>, fr\<lparr>pc := Ret True\<rparr>), w, [])
         | Ret b \<Rightarrow> None
         | Thrown e \<Rightarrow> None))"

subsection \<open>One call among the other processes\<close>

text \<open>
  An execution of one call: steps of the call, between which the other processes may
  leave the shared file system in any state. The third component collects the events
  of the call. \<open>run\<close> is the same as a function of the list of moves.
\<close>

type_synonym conf = "(Parallelizer \<times> frame) \<times> world \<times> event list"

inductive exec :: "config \<Rightarrow> conf \<Rightarrow> conf \<Rightarrow> bool" for cfg :: config and c :: conf where
  exec_refl: "exec cfg c c"
| exec_step:
    "exec cfg c (sf, w, evs) \<Longrightarrow> barrier_step cfg sf w = Some (sf1, w1, es)
       \<Longrightarrow> exec cfg c (sf1, w1, evs @ es)"
| exec_others: "exec cfg c (sf, w, evs) \<Longrightarrow> exec cfg c (sf, w1, evs)"

datatype move = Step | Others world

fun run :: "config \<Rightarrow> move list \<Rightarrow> conf \<Rightarrow> conf option" where
  "run cfg [] c = Some c"
| "run cfg (Step # ms) (sf, w, evs) =
     (case barrier_step cfg sf w of
        None \<Rightarrow> None
      | Some (sf1, w1, es) \<Rightarrow> run cfg ms (sf1, w1, evs @ es))"
| "run cfg (Others w1 # ms) (sf, w, evs) = run cfg ms (sf, w1, evs)"

subsection \<open>The group of processes\<close>

text \<open>
  The processes of a group, each with its object and its frame, the file system they
  share, and the history of the events with the index of the process that caused each.
  An action lets one process call \<open>barrier\<close>, take one step of its call, or return
  from it; any interleaving of the actions of the processes is a run.
\<close>

record system =
  procs :: "(Parallelizer \<times> frame) list"
  shared :: world
  history :: "(nat \<times> event) list"

datatype action = Call nat string | Do nat | Return nat

definition sys_step :: "config \<Rightarrow> action \<Rightarrow> system \<Rightarrow> system option" where
  "sys_step cfg a g =
     (case a of
        Call i t \<Rightarrow>
          if i < length (procs g) \<and> pc (snd (procs g ! i)) = Idle
          then Some (g\<lparr>procs := (procs g)[i := (fst (procs g ! i), call_barrier t)]\<rparr>)
          else None
      | Do i \<Rightarrow>
          if i < length (procs g)
          then (case barrier_step cfg (procs g ! i) (shared g) of
                  None \<Rightarrow> None
                | Some (sf, w, es) \<Rightarrow>
                    Some (g\<lparr>procs := (procs g)[i := sf], shared := w,
                            history := history g @ map (Pair i) es\<rparr>))
          else None
      | Return i \<Rightarrow>
          if i < length (procs g)
          then (case pc (snd (procs g ! i)) of
                  Ret b \<Rightarrow>
                    Some (g\<lparr>procs := (procs g)[i := (fst (procs g ! i),
                                                      (snd (procs g ! i))\<lparr>pc := Idle\<rparr>)]\<rparr>)
                | _ \<Rightarrow> None)
          else None)"

fun sys_run :: "config \<Rightarrow> action list \<Rightarrow> system \<Rightarrow> system option" where
  "sys_run cfg [] g = Some g"
| "sys_run cfg (a # as) g =
     (case sys_step cfg a g of None \<Rightarrow> None | Some g1 \<Rightarrow> sys_run cfg as g1)"

inductive reach :: "config \<Rightarrow> system \<Rightarrow> system \<Rightarrow> bool" for cfg :: config and g0 :: system where
  reach_init: "reach cfg g0 g0"
| reach_step: "reach cfg g0 g \<Longrightarrow> sys_step cfg a g = Some g1 \<Longrightarrow> reach cfg g0 g1"

section \<open>The properties\<close>

text \<open>The files a list of events unlinks, in order.\<close>

fun unlinks :: "event list \<Rightarrow> string list" where
  "unlinks [] = []"
| "unlinks (Unlinked f # es) = f # unlinks es"
| "unlinks (e # es) = unlinks es"

subsection \<open>The ordering of the barrier\<close>

text \<open>
  A worker \<open>r\<close> has acknowledged on the ack file \<open>f\<close> in a history when some process
  whose id is \<open>r\<close> has pushed \<open>r\<close> onto \<open>f\<close>. The ordering guarantee, for the objects
  \<open>objs\<close> of the processes and the registered workers \<open>ws\<close>: wherever the history
  has a process observe \<open>GOON\<close> on its command file of a step, given by a tag and an
  index, every registered worker has acknowledged on the ack file of that step
  earlier in the history. The second property is the coordinator's side: a push of
  \<open>GOON\<close> comes after the same process found the ack file of the step to hold as
  many values as there are registered workers.
\<close>

definition acked :: "string list \<Rightarrow> (nat \<times> event) list \<Rightarrow> string \<Rightarrow> string \<Rightarrow> bool" where
  "acked ids h f r = (\<exists>j < length ids. ids ! j = r \<and> (j, Pushed f r) \<in> set h)"

definition goon_after_acks :: "Parallelizer list \<Rightarrow> string list \<Rightarrow> (nat \<times> event) list \<Rightarrow> bool" where
  "goon_after_acks objs ws h =
     (\<forall>n i t k. n < length h \<and> i < length objs
          \<and> h ! n = (i, Observed (get_barrier_file_name (objs ! i) ''cmd'' t k) msg_ok)
        \<longrightarrow> (\<forall>r \<in> set ws. acked (map id_str objs) (take n h)
                               (get_barrier_file_name (objs ! i) ''ack'' t k) r))"

definition goon_after_size :: "Parallelizer list \<Rightarrow> nat \<Rightarrow> (nat \<times> event) list \<Rightarrow> bool" where
  "goon_after_size objs n h =
     (\<forall>m i t k. m < length h \<and> i < length objs
          \<and> h ! m = (i, Pushed (get_barrier_file_name (objs ! i) ''cmd'' t k) msg_ok)
        \<longrightarrow> (i, SizeReached (get_barrier_file_name (objs ! i) ''ack'' t k) n) \<in> set (take m h))"

text \<open>
  The group right after setup, before any barrier call: the ids of the processes are
  pairwise distinct, every process has the barrier prefix \<open>bf\<close> and the workers queue
  on the file \<open>wkf\<close>, no process is inside a call or has a file to clean up, the workers
  queue holds no id twice, and no file under the barrier prefix exists. In a group that
  is \<open>all_registered\<close> the id of every process is in the workers queue.
\<close>

definition group :: "config \<Rightarrow> string \<Rightarrow> string \<Rightarrow> system \<Rightarrow> bool" where
  "group cfg bf wkf g =
     (distinct (map (\<lambda>sf. id_str (fst sf)) (procs g)) \<and>
      (\<forall>sf \<in> set (procs g).
          barrier_file (fst sf) = bf \<and> get_stack (WORKERS cfg) (fst sf) = Inr wkf
          \<and> continuous_cleanup_list (fst sf) = [] \<and> pc (snd sf) = Idle) \<and>
      distinct (contents (shared g) wkf) \<and>
      \<not> prefix (bf @ ''_'') wkf \<and>
      (\<forall>f \<in> set (map fst (files (shared g))). \<not> prefix (bf @ ''_'') f) \<and>
      history g = [])"

definition all_registered :: "string \<Rightarrow> system \<Rightarrow> bool" where
  "all_registered wkf g =
     (\<forall>sf \<in> set (procs g). id_str (fst sf) \<in> set (contents (shared g) wkf))"

subsection \<open>What holds in every run of a group\<close>

text \<open>
  The invariant behind the ordering guarantee. \<open>barrier_name\<close> is the barrier file
  name as a function of the prefix. For each process: its static fields, the file names
  of its frame while it is inside a call, and, once it has polled the ack file
  successfully, that the poll is in the history and, when every process is registered,
  that every registered worker has acknowledged. For the group: the
  workers queue is unchanged; a push onto an ack file is recorded for a process only for
  a step it has passed or is in (\<open>pushes_recorded\<close>); an ack file holds no id twice and
  only ids that were pushed (\<open>acks_sound\<close>); every push of \<open>GOON\<close> in the history
  follows the pushing process's successful poll of the ack file (\<open>ordered_size\<close>);
  and, when every process is registered, a command file holds \<open>GOON\<close> only when every
  registered worker has acknowledged (\<open>goon_sound\<close>) and every observation of
  \<open>GOON\<close> in the history follows the acknowledgments (\<open>ordered_acks\<close>).
\<close>

definition barrier_name :: "string \<Rightarrow> string \<Rightarrow> string \<Rightarrow> int \<Rightarrow> string" where
  "barrier_name bf step t k = bf @ ''_'' @ step @ ''_'' @ t @ ''_'' @ to_string k"

definition post_ack :: "label \<Rightarrow> bool" where
  "post_ack l =
     (case l of L169 \<Rightarrow> True | L170 \<Rightarrow> True | L171 \<Rightarrow> True | L173 \<Rightarrow> True | L178 \<Rightarrow> True
      | L179 \<Rightarrow> True | L183 \<Rightarrow> True | Thrown e \<Rightarrow> True | _ \<Rightarrow> False)"

definition in_call :: "label \<Rightarrow> bool" where
  "in_call l = (case l of Idle \<Rightarrow> False | L146 \<Rightarrow> False | Ret b \<Rightarrow> False | _ \<Rightarrow> True)"

definition local_inv ::
  "config \<Rightarrow> string \<Rightarrow> string \<Rightarrow> string list \<Rightarrow> string list \<Rightarrow> (nat \<times> event) list \<Rightarrow> nat
     \<Rightarrow> Parallelizer \<times> frame \<Rightarrow> bool" where
  "local_inv cfg bf wkf ws ids h i sf =
     (case sf of (s, fr) \<Rightarrow>
        id_str s = ids ! i \<and> barrier_file s = bf \<and> get_stack (WORKERS cfg) s = Inr wkf \<and>
        (\<forall>f \<in> set (continuous_cleanup_list s). prefix (bf @ ''_'') f) \<and>
        (pc fr = L178 \<longrightarrow> (\<forall>f \<in> set (file_list fr). prefix (bf @ ''_'') f)) \<and>
        (in_call (pc fr) \<longrightarrow>
           cmd_file_name fr = barrier_name bf ''cmd'' (tag fr) (i_barrier s) \<and>
           ack_file_name fr = barrier_name bf ''ack'' (tag fr) (i_barrier s)) \<and>
        (pc fr = L170 \<longrightarrow> n_workers fr = length ws) \<and>
        (pc fr = L171 \<longrightarrow>
           (i, SizeReached (ack_file_name fr) (length ws)) \<in> set h \<and>
           (set ids \<subseteq> set ws \<longrightarrow> (\<forall>r \<in> set ws. acked ids h (ack_file_name fr) r))))"

definition pushes_recorded ::
  "string \<Rightarrow> string list \<Rightarrow> (Parallelizer \<times> frame) list \<Rightarrow> (nat \<times> event) list \<Rightarrow> bool" where
  "pushes_recorded bf ids ps h =
     (\<forall>j t k x. (j, Pushed (barrier_name bf ''ack'' t k) x) \<in> set h \<longrightarrow>
        j < length ids \<and> x = ids ! j \<and>
        (k < i_barrier (fst (ps ! j)) \<or>
         (k = i_barrier (fst (ps ! j)) \<and> t = tag (snd (ps ! j)) \<and> post_ack (pc (snd (ps ! j))))))"

definition acks_sound :: "string \<Rightarrow> string list \<Rightarrow> world \<Rightarrow> (nat \<times> event) list \<Rightarrow> bool" where
  "acks_sound bf ids w h =
     (\<forall>t k. distinct (contents w (barrier_name bf ''ack'' t k)) \<and>
            (\<forall>x \<in> set (contents w (barrier_name bf ''ack'' t k)).
                acked ids h (barrier_name bf ''ack'' t k) x))"

definition goon_sound ::
  "string \<Rightarrow> string list \<Rightarrow> string list \<Rightarrow> world \<Rightarrow> (nat \<times> event) list \<Rightarrow> bool" where
  "goon_sound bf ids ws w h =
     (\<forall>t k. msg_ok \<in> set (contents w (barrier_name bf ''cmd'' t k)) \<longrightarrow>
            (\<forall>r \<in> set ws. acked ids h (barrier_name bf ''ack'' t k) r))"

definition ordered_acks ::
  "string \<Rightarrow> string list \<Rightarrow> string list \<Rightarrow> (nat \<times> event) list \<Rightarrow> bool" where
  "ordered_acks bf ids ws h =
     (\<forall>n i t k. n < length h \<and> h ! n = (i, Observed (barrier_name bf ''cmd'' t k) msg_ok)
          \<longrightarrow> (\<forall>r \<in> set ws. acked ids (take n h) (barrier_name bf ''ack'' t k) r))"

definition ordered_size :: "string \<Rightarrow> string list \<Rightarrow> (nat \<times> event) list \<Rightarrow> bool" where
  "ordered_size bf ws h =
     (\<forall>m i t k. m < length h \<and> h ! m = (i, Pushed (barrier_name bf ''cmd'' t k) msg_ok)
          \<longrightarrow> (i, SizeReached (barrier_name bf ''ack'' t k) (length ws)) \<in> set (take m h))"

definition sys_inv ::
  "config \<Rightarrow> string \<Rightarrow> string \<Rightarrow> string list \<Rightarrow> string list \<Rightarrow> system \<Rightarrow> bool" where
  "sys_inv cfg bf wkf ws ids g =
     (length (procs g) = length ids \<and>
      (\<forall>i < length ids. local_inv cfg bf wkf ws ids (history g) i (procs g ! i)) \<and>
      contents (shared g) wkf = ws \<and>
      pushes_recorded bf ids (procs g) (history g) \<and>
      acks_sound bf ids (shared g) (history g) \<and>
      ordered_size bf ws (history g) \<and>
      (set ids \<subseteq> set ws \<longrightarrow>
         goon_sound bf ids ws (shared g) (history g) \<and> ordered_acks bf ids ws (history g)))"

subsection \<open>What holds during one call\<close>

text \<open>
  The invariant of one call of \<open>barrier\<close> with the tag \<open>t\<close> on the object \<open>s0\<close>,
  label by label: how the object differs from \<open>s0\<close>, which file names the frame holds,
  and where the call's events have an \<open>unlink\<close>. \<open>released\<close> describes the events
  once \<open>clean\<close> is done: on the coordinator they end with the observation of \<open>GOON\<close>
  followed by the unlinks of the files the continuous list held on entry, and there is
  no earlier unlink; on another process there is none.
\<close>

definition released :: "Parallelizer \<Rightarrow> string \<Rightarrow> event list \<Rightarrow> bool" where
  "released s0 t evs =
     (if is_master s0
      then (\<exists>pre. evs = pre @ Observed (get_barrier_file_name s0 ''cmd'' t (i_barrier s0)) msg_ok
                           # map Unlinked (continuous_cleanup_list s0)
                  \<and> unlinks pre = [])
      else unlinks evs = [])"

definition call_inv :: "Parallelizer \<Rightarrow> string \<Rightarrow> conf \<Rightarrow> bool" where
  "call_inv s0 t c =
     (case c of ((s, fr), w, evs) \<Rightarrow>
        tag fr = t \<and>
        (case pc fr of
           Idle \<Rightarrow> False
         | L146 \<Rightarrow> s = s0 \<and> evs = []
         | Ret b \<Rightarrow>
             if b
             then initialized s0
                  \<and> cmd_file_name fr = get_barrier_file_name s0 ''cmd'' t (i_barrier s0)
                  \<and> ack_file_name fr = get_barrier_file_name s0 ''ack'' t (i_barrier s0)
                  \<and> s = s0\<lparr>i_barrier := i_barrier s0 + 1,
                           continuous_cleanup_list :=
                             (if is_master s0
                              then [get_barrier_file_name s0 ''cmd'' t (i_barrier s0),
                                    get_barrier_file_name s0 ''ack'' t (i_barrier s0)]
                              else continuous_cleanup_list s0)\<rparr>
                  \<and> released s0 t evs
             else \<not> initialized s0 \<and> s = s0 \<and> evs = []
         | L178 \<Rightarrow>
             initialized s0 \<and> is_master s0 \<and> s = s0
             \<and> cmd_file_name fr = get_barrier_file_name s0 ''cmd'' t (i_barrier s0)
             \<and> ack_file_name fr = get_barrier_file_name s0 ''ack'' t (i_barrier s0)
             \<and> (\<exists>pre k. evs = pre @ Observed (get_barrier_file_name s0 ''cmd'' t (i_barrier s0)) msg_ok
                                # map Unlinked (take k (continuous_cleanup_list s0))
                         \<and> unlinks pre = []
                         \<and> file_list fr = drop k (continuous_cleanup_list s0))
         | L179 \<Rightarrow>
             initialized s0 \<and> is_master s0 \<and> s = s0\<lparr>continuous_cleanup_list := []\<rparr>
             \<and> cmd_file_name fr = get_barrier_file_name s0 ''cmd'' t (i_barrier s0)
             \<and> ack_file_name fr = get_barrier_file_name s0 ''ack'' t (i_barrier s0)
             \<and> released s0 t evs
         | L183 \<Rightarrow>
             initialized s0
             \<and> cmd_file_name fr = get_barrier_file_name s0 ''cmd'' t (i_barrier s0)
             \<and> ack_file_name fr = get_barrier_file_name s0 ''ack'' t (i_barrier s0)
             \<and> s = s0\<lparr>continuous_cleanup_list :=
                        (if is_master s0
                         then [get_barrier_file_name s0 ''cmd'' t (i_barrier s0),
                               get_barrier_file_name s0 ''ack'' t (i_barrier s0)]
                         else continuous_cleanup_list s0)\<rparr>
             \<and> released s0 t evs
         | _ \<Rightarrow>
             initialized s0 \<and> s = s0
             \<and> cmd_file_name fr = get_barrier_file_name s0 ''cmd'' t (i_barrier s0)
             \<and> ack_file_name fr = get_barrier_file_name s0 ''ack'' t (i_barrier s0)
             \<and> unlinks evs = []))"

section \<open>Example inputs\<close>

text \<open>
  The values the examples are run on: a configuration with the usual tags and a path
  join with a slash, the object of the process of rank \<open>r\<close> as setup leaves it in the
  work directory \<open>wd\<close>, and a file system holding the given queue files.
\<close>

definition example_config :: config where
  "example_config =
     \<lparr>LOG = ''log'', COMMAND = ''command'', WORKERS = ''workers'', REGISTER = ''register'',
      BARRIER = ''barrier'', sfx_default = [], join_path = (\<lambda>a b. a @ ''/'' @ b)\<rparr>"

definition example_object :: "int \<Rightarrow> Parallelizer" where
  "example_object r =
     \<lparr>work_directory = ''wd'', barrier_file = ''wd/barrier'', n_registered = 0,
      master_flag = (r = 0), i_barrier = 0, id_str = ''rank_'' @ to_string r, rank = r,
      initialized = True,
      fs_map = [(''log'', ''wd/log_rank_'' @ to_string r), (''command'', ''wd/command''),
                (''workers'', ''wd/workers''), (''register'', ''wd/register'')],
      continuous_cleanup_list = [],
      final_cleanup_list = [''wd/log_rank_'' @ to_string r, ''wd/command'', ''wd/workers'',
                            ''wd/register'']\<rparr>"

definition example_world :: "(string \<times> string list) list \<Rightarrow> world" where
  "example_world fs = \<lparr>files = fs, dirs = [''wd''], mkdir_errors = []\<rparr>"

definition example_frame :: "label \<Rightarrow> int \<Rightarrow> nat \<Rightarrow> string list \<Rightarrow> frame" where
  "example_frame l i n fl =
     \<lparr>pc = l, tag = ''x'', cmd_file_name = ''wd/barrier_cmd_x_'' @ to_string i,
      ack_file_name = ''wd/barrier_ack_x_'' @ to_string i, n_workers = n, file_list = fl\<rparr>"

definition example_events :: "int \<Rightarrow> event list" where
  "example_events i =
     [Cleared (''wd/barrier_ack_x_'' @ to_string i),
      Pushed (''wd/barrier_cmd_x_'' @ to_string i) ''WAIT'',
      Observed (''wd/barrier_cmd_x_'' @ to_string i) ''WAIT'',
      Pushed (''wd/barrier_ack_x_'' @ to_string i) ''rank_0'',
      SizeReached (''wd/barrier_ack_x_'' @ to_string i) 1,
      Pushed (''wd/barrier_cmd_x_'' @ to_string i) ''GOON'',
      Observed (''wd/barrier_cmd_x_'' @ to_string i) ''GOON'']"

text \<open>
  Groups: the processes of the given ranks, idle after a setup in which the coordinator
  has registered two workers, the workers queue holding the ranks 0 and 1. In the first schedule the processes of rank 0 and 1 meet at
  a barrier; in the second the process of rank 2, which is not registered, takes the
  place of the process of rank 1. The two histories are what the schedules produce.
\<close>

definition idle_frame :: frame where
  "idle_frame = (call_barrier [])\<lparr>pc := Idle\<rparr>"

definition example_group :: "int list \<Rightarrow> system" where
  "example_group ranks =
     \<lparr>procs = map (\<lambda>r. ((example_object r)\<lparr>n_registered := (if r = 0 then 2 else 0)\<rparr>,
                          idle_frame)) ranks,
      shared = example_world [(''wd/workers'', [''rank_0'', ''rank_1''])],
      history = []\<rparr>"

definition straggler_schedule :: "action list" where
  "straggler_schedule =
     [Call 0 ''x'', Do 0, Do 0, Do 0, Do 0, Do 0,
      Call 2 ''x'', Do 2, Do 2, Do 2,
      Do 0, Do 0, Do 0, Do 0, Do 2]"

definition group_schedule :: "action list" where
  "group_schedule =
     [Call 0 ''x'', Do 0, Do 0, Do 0, Do 0, Do 0,
      Call 1 ''x'', Do 1, Do 1, Do 1,
      Do 0, Do 0, Do 0, Do 0, Do 1]"

definition straggler_events :: "(nat \<times> event) list" where
  "straggler_events =
     [(0, Cleared ''wd/barrier_ack_x_0''),
      (0, Pushed ''wd/barrier_cmd_x_0'' ''WAIT''),
      (0, Observed ''wd/barrier_cmd_x_0'' ''WAIT''),
      (0, Pushed ''wd/barrier_ack_x_0'' ''rank_0''),
      (2, Observed ''wd/barrier_cmd_x_0'' ''WAIT''),
      (2, Pushed ''wd/barrier_ack_x_0'' ''rank_2''),
      (0, SizeReached ''wd/barrier_ack_x_0'' 2),
      (0, Pushed ''wd/barrier_cmd_x_0'' ''GOON''),
      (0, Observed ''wd/barrier_cmd_x_0'' ''GOON''),
      (2, Observed ''wd/barrier_cmd_x_0'' ''GOON'')]"

definition group_events :: "(nat \<times> event) list" where
  "group_events =
     [(0, Cleared ''wd/barrier_ack_x_0''),
      (0, Pushed ''wd/barrier_cmd_x_0'' ''WAIT''),
      (0, Observed ''wd/barrier_cmd_x_0'' ''WAIT''),
      (0, Pushed ''wd/barrier_ack_x_0'' ''rank_0''),
      (1, Observed ''wd/barrier_cmd_x_0'' ''WAIT''),
      (1, Pushed ''wd/barrier_ack_x_0'' ''rank_1''),
      (0, SizeReached ''wd/barrier_ack_x_0'' 2),
      (0, Pushed ''wd/barrier_cmd_x_0'' ''GOON''),
      (0, Observed ''wd/barrier_cmd_x_0'' ''GOON''),
      (1, Observed ''wd/barrier_cmd_x_0'' ''GOON'')]"

section \<open>Proofs\<close>

subsection \<open>Decimal numerals and barrier file names\<close>

lemma digit_char_inj: "a < 10 \<Longrightarrow> b < 10 \<Longrightarrow> digit_char a = digit_char b \<Longrightarrow> a = b"
proof -
  assume a: "a < 10" and b: "b < 10" and e: "digit_char a = digit_char b"
  have d: "distinct ''0123456789''" by simp
  have "length ''0123456789'' = 10" by simp
  with a b e d show ?thesis
    unfolding digit_char_def by (metis nth_eq_iff_index_eq)
qed

lemma digit_char_isdigit: "d < 10 \<Longrightarrow> isdigit (digit_char d)"
proof -
  assume "d < 10"
  then have "''0123456789'' ! d \<in> set ''0123456789''"
    by (intro nth_mem) simp
  then show ?thesis unfolding isdigit_def digit_char_def .
qed

lemma nat_to_string_digits: "\<forall>c \<in> set (nat_to_string n). isdigit c"
proof (induction n rule: nat_to_string.induct)
  case (1 n)
  show ?case
  proof (cases "n < 10")
    case True
    then show ?thesis by (simp add: nat_to_string.simps [of n] digit_char_isdigit)
  next
    case False
    with 1 show ?thesis by (simp add: nat_to_string.simps [of n] digit_char_isdigit)
  qed
qed

lemma nat_to_string_nonempty: "nat_to_string n \<noteq> []"
  by (subst nat_to_string.simps) simp

lemma nat_to_string_inj: "nat_to_string a = nat_to_string b \<Longrightarrow> a = b"
proof (induction a arbitrary: b rule: nat_to_string.induct)
  case (1 n)
  show ?case
  proof (cases "n < 10")
    case True
    with 1(2) have e: "[digit_char n] = nat_to_string b" by (simp add: nat_to_string.simps [of n])
    have "b < 10"
    proof (rule ccontr)
      assume "\<not> b < 10"
      then have "nat_to_string b = nat_to_string (b div 10) @ [digit_char (b mod 10)]"
        by (simp add: nat_to_string.simps [of b])
      with e nat_to_string_nonempty [of "b div 10"] show False by simp
    qed
    with e True show ?thesis by (simp add: nat_to_string.simps [of b] digit_char_inj)
  next
    case False
    then have n: "nat_to_string n = nat_to_string (n div 10) @ [digit_char (n mod 10)]"
      by (simp add: nat_to_string.simps [of n])
    have "\<not> b < 10"
    proof
      assume "b < 10"
      then have "nat_to_string b = [digit_char b]" by (simp add: nat_to_string.simps [of b])
      with n 1(2) nat_to_string_nonempty [of "n div 10"] show False by simp
    qed
    then have b: "nat_to_string b = nat_to_string (b div 10) @ [digit_char (b mod 10)]"
      by (simp add: nat_to_string.simps [of b])
    from n b 1(2) have e1: "nat_to_string (n div 10) = nat_to_string (b div 10)"
      and e2: "digit_char (n mod 10) = digit_char (b mod 10)" by simp_all
    from 1(1) [OF False e1] have "n div 10 = b div 10" .
    moreover from e2 have "n mod 10 = b mod 10" by (intro digit_char_inj) simp_all
    ultimately show ?thesis by (metis div_mult_mod_eq)
  qed
qed

lemma isdigit_minus: "\<not> isdigit CHR ''-''"
  by (simp add: isdigit_def)

lemma isdigit_underscore: "\<not> isdigit CHR ''_''"
  by (simp add: isdigit_def)

lemma to_string_inj: "to_string i = to_string j \<Longrightarrow> i = j"
proof -
  assume e: "to_string i = to_string j"
  have hd_digit: "hd (nat_to_string n) \<noteq> CHR ''-''" for n
    using nat_to_string_digits [of n] nat_to_string_nonempty [of n] isdigit_minus
    by (metis hd_in_set)
  show ?thesis
  proof (cases "i < 0")
    case True
    show ?thesis
    proof (cases "j < 0")
      case True
      with \<open>i < 0\<close> e have "nat (- i) = nat (- j)" by (simp add: to_string_def nat_to_string_inj)
      with True \<open>i < 0\<close> show ?thesis by simp
    next
      case False
      with \<open>i < 0\<close> e have "CHR ''-'' # nat_to_string (nat (- i)) = nat_to_string (nat j)"
        by (simp add: to_string_def)
      then have "hd (nat_to_string (nat j)) = CHR ''-''" by (metis list.sel(1))
      with hd_digit show ?thesis by simp
    qed
  next
    case False
    show ?thesis
    proof (cases "j < 0")
      case True
      with False e have "nat_to_string (nat i) = CHR ''-'' # nat_to_string (nat (- j))"
        by (simp add: to_string_def)
      then have "hd (nat_to_string (nat i)) = CHR ''-''" by (metis list.sel(1))
      with hd_digit show ?thesis by simp
    next
      case jn: False
      with False e have "nat i = nat j" by (simp add: to_string_def nat_to_string_inj)
      with False jn show ?thesis by simp
    qed
  qed
qed

lemma to_string_no_underscore: "CHR ''_'' \<notin> set (to_string i)"
  using nat_to_string_digits isdigit_underscore
  by (auto simp: to_string_def)

lemma first_segment:
  "c \<notin> set as \<Longrightarrow> c \<notin> set bs \<Longrightarrow> as @ c # xs = bs @ c # ys \<Longrightarrow> as = bs \<and> xs = ys"
proof (induction as arbitrary: bs)
  case Nil
  then show ?case by (cases bs) auto
next
  case (Cons a as)
  then show ?case by (cases bs) auto
qed

lemma last_segment:
  assumes "xs @ c # ds = ys @ c # es" and "c \<notin> set ds" and "c \<notin> set es"
  shows "xs = ys \<and> ds = es"
proof -
  from assms(1) have "rev (xs @ c # ds) = rev (ys @ c # es)" by simp
  then have "rev ds @ c # rev xs = rev es @ c # rev ys" by simp
  moreover have "c \<notin> set (rev ds)" "c \<notin> set (rev es)" using assms by simp_all
  ultimately have "rev ds = rev es \<and> rev xs = rev ys"
    by (intro first_segment)
  then show ?thesis by simp
qed

lemma get_barrier_file_name_inj:
  assumes "get_barrier_file_name s step t i = get_barrier_file_name s step u j"
  shows "t = u \<and> i = j"
proof -
  from assms have "t @ CHR ''_'' # to_string i = u @ CHR ''_'' # to_string j"
    by (simp add: get_barrier_file_name_def)
  then have "t = u \<and> to_string i = to_string j"
    by (rule last_segment) (rule to_string_no_underscore)+
  then show ?thesis by (simp add: to_string_inj)
qed

lemma get_barrier_file_name_cmd_ack:
  "get_barrier_file_name s ''cmd'' t i \<noteq> get_barrier_file_name s ''ack'' u j"
  by (simp add: get_barrier_file_name_def)

subsection \<open>Evaluations used by the examples\<close>

lemma stoi_3: "stoi ''3'' = Inr 3"
  by code_simp

lemma stoi_0: "stoi ''0'' = Inr 0"
  by code_simp

lemma to_string_3: "to_string 3 = ''3''"
  by code_simp

lemma to_string_0: "to_string 0 = ''0''"
  by code_simp

lemma to_string_1: "to_string 1 = ''1''" by code_simp
lemma to_string_2: "to_string 2 = ''2''" by code_simp

subsection \<open>Coordinator status and rank\<close>

text \<open>
  Claim C10. An object that \<open>init\<close> has not run on reports coordinator status, whatever
  the header puts into \<open>rank\<close> and \<open>initialized\<close>: the constructor sets the flag,
  and rank resolution is the only place that sets it again, to whether the resolved
  rank is 0.
\<close>

theorem is_master_before_init:
  "is_master (new_Parallelizer rank0 initialized0) \<and>
   (\<forall>env s1. init_rank env (new_Parallelizer rank0 initialized0) = Inr s1
      \<longrightarrow> is_master s1 = (rank s1 = 0))"
  by (auto simp: is_master_def new_Parallelizer_def init_rank_def split: sum.splits if_splits)

text \<open>
  With the rank 3 in the environment, the fresh object is a coordinator and the object
  after rank resolution is not.
\<close>

theorem is_master_before_init_witness:
  "is_master (new_Parallelizer (- 1) False) \<and>
   init_rank [(''PARALLEL_RANK'', ''3'')] (new_Parallelizer (- 1) False)
     = Inr ((new_Parallelizer (- 1) False)\<lparr>rank := 3, master_flag := False, id_str := ''rank_3''\<rparr>) \<and>
   \<not> is_master ((new_Parallelizer (- 1) False)\<lparr>rank := 3, master_flag := False, id_str := ''rank_3''\<rparr>)"
proof -
  have r: "init_rank [(''PARALLEL_RANK'', ''3'')] (new_Parallelizer (- 1) False)
     = Inr ((new_Parallelizer (- 1) False)\<lparr>rank := 3, master_flag := False, id_str := ''rank_3''\<rparr>)"
    by (simp add: init_rank_def env_opts_def getenv_def stoi_3 to_string_3)
  from is_master_before_init [of "- 1" False] r show ?thesis
    by (simp add: is_master_def)
qed

text \<open>
  Claim C5. Rank resolution takes the first of \<open>SLURM_PROCID\<close>, \<open>PARALLEL_RANK\<close> that is
  set; when its value parses to a rank that is not negative, this is the rank, the id
  is \<open>rank_\<close> followed by the rank, and the process is the coordinator exactly when
  the rank is 0. When neither variable is set, the rank stays what it was, and
  resolution throws the runtime error on the undetermined rank if that was negative.
\<close>

theorem rank_resolution:
  "(getenv env ''SLURM_PROCID'' = Some v \<and> stoi v = Inr r \<and> 0 \<le> r \<longrightarrow>
      init_rank env s = Inr (s\<lparr>rank := r, master_flag := (r = 0), id_str := ''rank_'' @ to_string r\<rparr>)) \<and>
   (getenv env ''SLURM_PROCID'' = None \<and> getenv env ''PARALLEL_RANK'' = Some v \<and> stoi v = Inr r \<and> 0 \<le> r \<longrightarrow>
      init_rank env s = Inr (s\<lparr>rank := r, master_flag := (r = 0), id_str := ''rank_'' @ to_string r\<rparr>)) \<and>
   (getenv env ''SLURM_PROCID'' = None \<and> getenv env ''PARALLEL_RANK'' = None \<and> rank s < 0 \<longrightarrow>
      init_rank env s = Inl (runtime_error rank_msg))"
  by (simp add: init_rank_def env_opts_def)

text \<open>
  The three cases of the specification: only the secondary variable set to 3, the
  primary variable set to 0, no variable set.
\<close>

theorem rank_resolution_witness:
  "init_rank [(''PARALLEL_RANK'', ''3'')] (new_Parallelizer (- 1) False)
     = Inr ((new_Parallelizer (- 1) False)\<lparr>rank := 3, master_flag := False, id_str := ''rank_3''\<rparr>) \<and>
   init_rank [(''SLURM_PROCID'', ''0''), (''PARALLEL_RANK'', ''3'')] (new_Parallelizer (- 1) False)
     = Inr ((new_Parallelizer (- 1) False)\<lparr>rank := 0, master_flag := True, id_str := ''rank_0''\<rparr>) \<and>
   init_rank [] (new_Parallelizer (- 1) False) = Inl (runtime_error rank_msg)"
  using rank_resolution [of "[(''PARALLEL_RANK'', ''3'')]" "''3''" 3 "new_Parallelizer (- 1) False"]
    rank_resolution [of "[(''SLURM_PROCID'', ''0''), (''PARALLEL_RANK'', ''3'')]" "''0''" 0
      "new_Parallelizer (- 1) False"]
    rank_resolution [of "[]" "[]" 0 "new_Parallelizer (- 1) False"]
  by (simp add: getenv_def stoi_3 stoi_0 to_string_3 to_string_0 new_Parallelizer_def)

subsection \<open>The queue registry\<close>

text \<open>
  Claim C7. \<open>create_stack\<close> on a tag that has a handle returns false and changes
  nothing. On a tag that has none it returns true, adds one handle for the tag, which
  is then the only one for that tag, and appends the backing path to the final cleanup
  list. A registry with at most one handle per tag stays so.
\<close>

theorem create_stack_one_handle_per_tag:
  "(map_of (fs_map s) tg \<noteq> None \<longrightarrow> create_stack cfg tg sfx s = (False, s)) \<and>
   (map_of (fs_map s) tg = None \<longrightarrow>
      (let f = join_path cfg (work_directory s) (tg @ (if sfx = [] then [] else ''_'' @ sfx));
           s1 = s\<lparr>fs_map := fs_map s @ [(tg, f)],
                  final_cleanup_list := final_cleanup_list s @ [f]\<rparr>
       in create_stack cfg tg sfx s = (True, s1) \<and>
          filter (\<lambda>kv. fst kv = tg) (fs_map s1) = [(tg, f)])) \<and>
   (distinct (map fst (fs_map s)) \<longrightarrow>
      distinct (map fst (fs_map (snd (create_stack cfg tg sfx s)))))"
proof -
  have none: "filter (\<lambda>kv. fst kv = tg) al = []" if "map_of al tg = None" for al :: "(string \<times> string) list"
    using that by (induction al) (auto split: if_splits)
  have notin: "tg \<notin> fst ` set al" if "map_of al tg = None" for al :: "(string \<times> string) list"
    using that by (simp add: map_of_eq_None_iff)
  show ?thesis
    by (auto simp: create_stack_def create_stack_from_file_def Let_def none dest: notin)
qed

text \<open>Creating the workers queue twice: the second request fails and changes nothing.\<close>

theorem create_stack_one_handle_per_tag_witness:
  "create_stack \<lparr>LOG = ''log'', COMMAND = ''command'', WORKERS = ''workers'', REGISTER = ''register'',
       BARRIER = ''barrier'', sfx_default = [], join_path = (\<lambda>a b. a @ ''/'' @ b)\<rparr>
     ''workers'' [] (new_Parallelizer (- 1) False)
   = (True, (new_Parallelizer (- 1) False)\<lparr>fs_map := [(''workers'', ''libworkstack/workers'')],
        final_cleanup_list := [''libworkstack/workers'']\<rparr>) \<and>
   create_stack \<lparr>LOG = ''log'', COMMAND = ''command'', WORKERS = ''workers'', REGISTER = ''register'',
       BARRIER = ''barrier'', sfx_default = [], join_path = (\<lambda>a b. a @ ''/'' @ b)\<rparr>
     ''workers'' []
     ((new_Parallelizer (- 1) False)\<lparr>fs_map := [(''workers'', ''libworkstack/workers'')],
        final_cleanup_list := [''libworkstack/workers'']\<rparr>)
   = (False, (new_Parallelizer (- 1) False)\<lparr>fs_map := [(''workers'', ''libworkstack/workers'')],
        final_cleanup_list := [''libworkstack/workers'']\<rparr>)"
  using create_stack_one_handle_per_tag [of "new_Parallelizer (- 1) False" "''workers''"
      "\<lparr>LOG = ''log'', COMMAND = ''command'', WORKERS = ''workers'', REGISTER = ''register'',
       BARRIER = ''barrier'', sfx_default = [], join_path = (\<lambda>a b. a @ ''/'' @ b)\<rparr>" "[]"]
    create_stack_one_handle_per_tag [of "(new_Parallelizer (- 1) False)\<lparr>fs_map := [(''workers'', ''libworkstack/workers'')],
        final_cleanup_list := [''libworkstack/workers'']\<rparr>" "''workers''"
      "\<lparr>LOG = ''log'', COMMAND = ''command'', WORKERS = ''workers'', REGISTER = ''register'',
       BARRIER = ''barrier'', sfx_default = [], join_path = (\<lambda>a b. a @ ''/'' @ b)\<rparr>" "[]"]
  by (simp add: new_Parallelizer_def Let_def)

subsection \<open>Queue contents\<close>

lemma contents_store [simp]: "contents (store f xs w) g = (if g = f then xs else contents w g)"
  by (simp add: contents_def store_def update_conv')

lemma contents_unlink [simp]: "contents (unlink f w) g = (if g = f then [] else contents w g)"
  by (simp add: contents_def unlink_def delete_conv')

lemma contents_push [simp]:
  "contents (FileStack_push f v w) g = (if g = f then contents w f @ [v] else contents w g)"
  by (simp add: FileStack_push_def)

lemma contents_clear [simp]:
  "contents (FileStack_clear f w) g = (if g = f then [] else contents w g)"
  by (simp add: FileStack_clear_def)

lemma contents_sleep [simp]:
  "contents (sleep f vs w) g = (if g = f then contents w f @ vs else contents w g)"
  unfolding sleep_def by (induction vs arbitrary: w) auto

lemma get_stack_n_registered [simp]:
  "get_stack t (s\<lparr>n_registered := n\<rparr>) = get_stack t s"
  by (simp add: get_stack_def)

lemma drain_returns:
  assumes "get_stack (REGISTER cfg) s = Inr rf" and "get_stack (WORKERS cfg) s = Inr wkf"
    and "rf \<noteq> wkf" and "contents w rf = q"
  shows "\<exists>w1. drain cfg s w = Some (Inr (s\<lparr>n_registered := n_registered s + int (length q)\<rparr>, w1))
           \<and> contents w1 rf = [] \<and> contents w1 wkf = contents w wkf @ q"
  using assms
proof (induction q arbitrary: s w)
  case Nil
  then have "drain cfg s w = Some (Inr (s, w))"
    by (subst drain.simps) (simp add: FileStack_pop_def)
  with Nil show ?case by auto
next
  case (Cons x xs)
  let ?s = "s\<lparr>n_registered := n_registered s + 1\<rparr>"
  let ?w = "FileStack_push wkf x (store rf xs w)"
  from Cons.prems have unfold: "drain cfg s w = drain cfg ?s ?w"
    by (subst drain.simps) (simp add: FileStack_pop_def)
  from Cons.prems have "contents ?w rf = xs" by simp
  with Cons.IH [of ?s ?w] Cons.prems
  obtain w1 where "drain cfg ?s ?w = Some (Inr (?s\<lparr>n_registered := n_registered ?s + int (length xs)\<rparr>, w1))"
    and "contents w1 rf = []" and "contents w1 wkf = contents ?w wkf @ xs"
    by auto
  with unfold Cons.prems show ?case by (auto simp: add.assoc)
qed

subsection \<open>Registration\<close>

text \<open>
  Claim C8. \<open>register_workers\<close> pushes the id of the process onto the register queue,
  and the pushes of the others land while it sleeps. On the coordinator the drain loop
  then returns, having emptied the register queue, appended every id it held to the
  workers queue and added their number to the registered count; so when the count was 0,
  the workers queue empty and the ids pairwise distinct, the count is the number of
  participants and the workers queue holds each of them once. On any other process
  nothing is drained and the count is unchanged. The two queues are different files.
\<close>

theorem register_workers_counts:
  assumes "get_stack (REGISTER cfg) s = Inr rf" and "get_stack (WORKERS cfg) s = Inr wkf"
    and "rf \<noteq> wkf"
  shows "(is_master s \<longrightarrow>
            (\<exists>w1. register_workers cfg arrived (s, w)
                    = Some (Inr (True, s\<lparr>n_registered := n_registered s
                                   + int (length (contents w rf @ id_str s # arrived))\<rparr>, w1))
               \<and> contents w1 rf = []
               \<and> contents w1 wkf = contents w wkf @ contents w rf @ id_str s # arrived)) \<and>
         (is_master s \<and> n_registered s = 0 \<and> contents w wkf = []
            \<and> distinct (contents w rf @ id_str s # arrived) \<longrightarrow>
            (\<exists>s1 w1. register_workers cfg arrived (s, w) = Some (Inr (True, s1, w1))
               \<and> n_registered s1 = int (length (contents w rf @ id_str s # arrived))
               \<and> distinct (contents w1 wkf)
               \<and> set (contents w1 wkf) = set (contents w rf @ id_str s # arrived))) \<and>
         (\<not> is_master s \<longrightarrow>
            (\<exists>w1. register_workers cfg arrived (s, w) = Some (Inr (True, s, w1))
               \<and> contents w1 rf = contents w rf @ id_str s # arrived
               \<and> contents w1 wkf = contents w wkf))"
proof -
  let ?w2 = "sleep rf arrived (FileStack_push rf (id_str s) w)"
  let ?q = "contents w rf @ id_str s # arrived"
  have q: "contents ?w2 rf = ?q" by simp
  have k: "contents ?w2 wkf = contents w wkf" using assms(3) by simp
  from drain_returns [OF assms q]
  obtain w1 where d: "drain cfg s ?w2 = Some (Inr (s\<lparr>n_registered := n_registered s + int (length ?q)\<rparr>, w1))"
    and e: "contents w1 rf = []" and f: "contents w1 wkf = contents ?w2 wkf @ ?q"
    by blast
  have m: "is_master s \<Longrightarrow> register_workers cfg arrived (s, w)
      = Some (Inr (True, s\<lparr>n_registered := n_registered s + int (length ?q)\<rparr>, w1))"
    using assms(1) d by (simp add: register_workers_def)
  have n: "\<not> is_master s \<Longrightarrow> register_workers cfg arrived (s, w) = Some (Inr (True, s, ?w2))"
    using assms(1) by (simp add: register_workers_def)
  have 1: "is_master s \<longrightarrow>
            (\<exists>w1. register_workers cfg arrived (s, w)
                    = Some (Inr (True, s\<lparr>n_registered := n_registered s + int (length ?q)\<rparr>, w1))
               \<and> contents w1 rf = [] \<and> contents w1 wkf = contents w wkf @ ?q)"
    using m e f k by auto
  have 2: "is_master s \<and> n_registered s = 0 \<and> contents w wkf = [] \<and> distinct ?q \<longrightarrow>
            (\<exists>s1 w1. register_workers cfg arrived (s, w) = Some (Inr (True, s1, w1))
               \<and> n_registered s1 = int (length ?q) \<and> distinct (contents w1 wkf)
               \<and> set (contents w1 wkf) = set ?q)"
  proof
    assume a: "is_master s \<and> n_registered s = 0 \<and> contents w wkf = [] \<and> distinct ?q"
    then have "contents w1 wkf = ?q" using f k by simp
    with a m show "\<exists>s1 w1. register_workers cfg arrived (s, w) = Some (Inr (True, s1, w1))
               \<and> n_registered s1 = int (length ?q) \<and> distinct (contents w1 wkf)
               \<and> set (contents w1 wkf) = set ?q"
      by (intro exI [of _ "s\<lparr>n_registered := n_registered s + int (length ?q)\<rparr>"] exI [of _ w1]) simp
  qed
  have 3: "\<not> is_master s \<longrightarrow>
            (\<exists>w1. register_workers cfg arrived (s, w) = Some (Inr (True, s, w1))
               \<and> contents w1 rf = ?q \<and> contents w1 wkf = contents w wkf)"
    using n q k by auto
  from 1 2 3 show ?thesis by blast
qed

text \<open>
  Three participants: the coordinator counts 3 and finds the three ids in the workers
  queue; the process of rank 1 leaves the register queue undrained.
\<close>

theorem register_workers_counts_witness:
  "(\<exists>s1 w1. register_workers example_config [''rank_1'', ''rank_2'']
               (example_object 0, example_world []) = Some (Inr (True, s1, w1))
      \<and> n_registered s1 = 3
      \<and> contents w1 ''wd/workers'' = [''rank_0'', ''rank_1'', ''rank_2'']
      \<and> contents w1 ''wd/register'' = []) \<and>
   (\<exists>w1. register_workers example_config [''rank_2'']
               (example_object 1, example_world [(''wd/register'', [''rank_0''])])
            = Some (Inr (True, example_object 1, w1))
      \<and> contents w1 ''wd/register'' = [''rank_0'', ''rank_1'', ''rank_2''])"
proof -
  have c: "contents (example_world []) f = []" for f
    by (simp add: contents_def example_world_def)
  have d: "contents (example_world [(''wd/register'', [''rank_0''])]) ''wd/register'' = [''rank_0'']"
    by (simp add: contents_def example_world_def)
  have m: "is_master (example_object 0)" "\<not> is_master (example_object 1)"
    by (simp_all add: is_master_def example_object_def)
  have i: "id_str (example_object 0) = ''rank_0''" "id_str (example_object 1) = ''rank_1''"
    "n_registered (example_object 0) = 0"
    by (simp_all add: example_object_def to_string_0 to_string_1)
  have g: "get_stack (REGISTER example_config) (example_object r) = Inr ''wd/register''"
    "get_stack (WORKERS example_config) (example_object r) = Inr ''wd/workers''" for r
    by (simp_all add: get_stack_def example_config_def example_object_def)
  have ne: "''wd/register'' \<noteq> ''wd/workers''" by simp
  note T0 = register_workers_counts [OF g(1) g(2) ne, of 0 "[''rank_1'', ''rank_2'']" "example_world []"]
  note T1 = register_workers_counts [OF g(1) g(2) ne, of 1 "[''rank_2'']"
      "example_world [(''wd/register'', [''rank_0''])]"]
  have pre0: "is_master (example_object 0) \<and> n_registered (example_object 0) = 0
      \<and> contents (example_world []) ''wd/workers'' = []
      \<and> distinct (contents (example_world []) ''wd/register'' @ id_str (example_object 0)
                      # [''rank_1'', ''rank_2''])"
    by (simp add: c m i)
  from T0 pre0 obtain s1 w1 where
    r0: "register_workers example_config [''rank_1'', ''rank_2'']
               (example_object 0, example_world []) = Some (Inr (True, s1, w1))"
    and n0: "n_registered s1 = int (length (contents (example_world []) ''wd/register''
                 @ id_str (example_object 0) # [''rank_1'', ''rank_2'']))"
    by blast
  from T0 m(1) obtain w1a where
    r0a: "register_workers example_config [''rank_1'', ''rank_2'']
               (example_object 0, example_world [])
          = Some (Inr (True, (example_object 0)\<lparr>n_registered := n_registered (example_object 0)
                + int (length (contents (example_world []) ''wd/register''
                 @ id_str (example_object 0) # [''rank_1'', ''rank_2'']))\<rparr>, w1a))"
    and e0: "contents w1a ''wd/register'' = []"
    and k0: "contents w1a ''wd/workers'' = contents (example_world []) ''wd/workers''
          @ contents (example_world []) ''wd/register''
          @ id_str (example_object 0) # [''rank_1'', ''rank_2'']"
    by blast
  from r0 r0a have same: "w1a = w1" by simp
  from T1 m(2) obtain w2 where
    r1: "register_workers example_config [''rank_2'']
               (example_object 1, example_world [(''wd/register'', [''rank_0''])])
            = Some (Inr (True, example_object 1, w2))"
    and k1: "contents w2 ''wd/register''
          = contents (example_world [(''wd/register'', [''rank_0''])]) ''wd/register''
            @ id_str (example_object 1) # [''rank_2'']"
    by blast
  have A: "\<exists>s1 w1. register_workers example_config [''rank_1'', ''rank_2'']
               (example_object 0, example_world []) = Some (Inr (True, s1, w1))
      \<and> n_registered s1 = 3
      \<and> contents w1 ''wd/workers'' = [''rank_0'', ''rank_1'', ''rank_2'']
      \<and> contents w1 ''wd/register'' = []"
    using r0 n0 e0 k0 same by (intro exI [of _ s1] exI [of _ w1]) (simp add: c i)
  have B: "\<exists>w1. register_workers example_config [''rank_2'']
               (example_object 1, example_world [(''wd/register'', [''rank_0''])])
            = Some (Inr (True, example_object 1, w1))
      \<and> contents w1 ''wd/register'' = [''rank_0'', ''rank_1'', ''rank_2'']"
    using r1 k1 by (intro exI [of _ w2]) (simp add: d i)
  from A B show ?thesis by (rule conjI)
qed

subsection \<open>The work directory\<close>

text \<open>
  Claim C6. The path of the work directory is a function of the override, the base name
  and the job id: the base name, joined to the override when there is one, followed by
  an underscore and the job id when \<open>SLURM_JOBID\<close> is set. Creating it again with
  the same inputs in the file system the first creation left succeeds with the same
  result; a directory that exists already is a success; a failure of \<open>mkdir\<close> other
  than \<open>EEXIST\<close> throws a runtime error whose message carries the path.
\<close>

theorem init_dir_idempotent:
  "(let p = (if 0 < length tempdir then join_path cfg tempdir (work_directory s)
             else work_directory s)
            @ (case getenv env ''SLURM_JOBID'' of Some j \<Rightarrow> ''_'' @ j | None \<Rightarrow> [])
    in init_work_directory cfg env tempdir s = s\<lparr>work_directory := p\<rparr> \<and>
       (\<forall>s1 w1. init_dir cfg env tempdir (s, w) = Inr (s1, w1)
           \<longrightarrow> init_dir cfg env tempdir (s, w1) = Inr (s1, w1)) \<and>
       (p \<in> set (dirs w) \<and> map_of (mkdir_errors w) p = None
           \<longrightarrow> init_dir cfg env tempdir (s, w) = Inr (s\<lparr>work_directory := p\<rparr>, w)) \<and>
       (\<forall>e. fst (mkdir p w) = Some e \<and> e \<noteq> EEXIST
           \<longrightarrow> init_dir cfg env tempdir (s, w)
                = Inl (runtime_error (''could not create working directory '' @ p
                                       @ '' for parallelizer''))))"
proof -
  define p where "p = (if 0 < length tempdir then join_path cfg tempdir (work_directory s)
             else work_directory s)
            @ (case getenv env ''SLURM_JOBID'' of Some j \<Rightarrow> ''_'' @ j | None \<Rightarrow> [])"
  have path: "init_work_directory cfg env tempdir s = s\<lparr>work_directory := p\<rparr>"
    by (simp add: init_work_directory_def p_def split: option.splits)
  have twice: "init_dir cfg env tempdir (s, w1) = Inr (s1, w1)"
    if "init_dir cfg env tempdir (s, w) = Inr (s1, w1)" for s1 w1
    using that
    by (auto simp: init_dir_def path init_mkdir_def mkdir_def Let_def
        split: option.splits if_splits prod.splits sum.splits)
  have exists: "init_dir cfg env tempdir (s, w) = Inr (s\<lparr>work_directory := p\<rparr>, w)"
    if "p \<in> set (dirs w) \<and> map_of (mkdir_errors w) p = None"
    using that by (simp add: init_dir_def path init_mkdir_def mkdir_def)
  have fails: "init_dir cfg env tempdir (s, w)
       = Inl (runtime_error (''could not create working directory '' @ p @ '' for parallelizer''))"
    if "fst (mkdir p w) = Some e \<and> e \<noteq> EEXIST" for e
    using that by (cases "mkdir p w") (auto simp: init_dir_def path init_mkdir_def Let_def)
  from path twice exists fails show ?thesis
    unfolding Let_def p_def [symmetric] by blast
qed

text \<open>
  Creating \<open>/tmp/libworkstack_42\<close>, creating it again, and failing to for lack of
  permission.
\<close>

theorem init_dir_idempotent_witness:
  "init_dir example_config [(''SLURM_JOBID'', ''42'')] ''/tmp''
     (new_Parallelizer (- 1) False, \<lparr>files = [], dirs = [], mkdir_errors = []\<rparr>)
   = Inr ((new_Parallelizer (- 1) False)\<lparr>work_directory := ''/tmp/libworkstack_42''\<rparr>,
          \<lparr>files = [], dirs = [''/tmp/libworkstack_42''], mkdir_errors = []\<rparr>) \<and>
   init_dir example_config [(''SLURM_JOBID'', ''42'')] ''/tmp''
     (new_Parallelizer (- 1) False,
      \<lparr>files = [], dirs = [''/tmp/libworkstack_42''], mkdir_errors = []\<rparr>)
   = Inr ((new_Parallelizer (- 1) False)\<lparr>work_directory := ''/tmp/libworkstack_42''\<rparr>,
          \<lparr>files = [], dirs = [''/tmp/libworkstack_42''], mkdir_errors = []\<rparr>) \<and>
   init_dir example_config [(''SLURM_JOBID'', ''42'')] ''/tmp''
     (new_Parallelizer (- 1) False,
      \<lparr>files = [], dirs = [], mkdir_errors = [(''/tmp/libworkstack_42'', EACCES)]\<rparr>)
   = Inl (runtime_error ''could not create working directory /tmp/libworkstack_42 for parallelizer'')"
proof -
  have first: "init_dir example_config [(''SLURM_JOBID'', ''42'')] ''/tmp''
     (new_Parallelizer (- 1) False, \<lparr>files = [], dirs = [], mkdir_errors = []\<rparr>)
   = Inr ((new_Parallelizer (- 1) False)\<lparr>work_directory := ''/tmp/libworkstack_42''\<rparr>,
          \<lparr>files = [], dirs = [''/tmp/libworkstack_42''], mkdir_errors = []\<rparr>)"
    by (simp add: init_dir_def init_work_directory_def init_mkdir_def mkdir_def getenv_def
        example_config_def new_Parallelizer_def)
  have denied: "fst (mkdir ''/tmp/libworkstack_42''
       \<lparr>files = [], dirs = [], mkdir_errors = [(''/tmp/libworkstack_42'', EACCES)]\<rparr>) = Some EACCES"
    by (simp add: mkdir_def)
  from first denied
    init_dir_idempotent [of "''/tmp''" example_config "new_Parallelizer (- 1) False"
      "[(''SLURM_JOBID'', ''42'')]" "\<lparr>files = [], dirs = [], mkdir_errors = []\<rparr>"]
    init_dir_idempotent [of "''/tmp''" example_config "new_Parallelizer (- 1) False"
      "[(''SLURM_JOBID'', ''42'')]"
      "\<lparr>files = [], dirs = [], mkdir_errors = [(''/tmp/libworkstack_42'', EACCES)]\<rparr>"]
  show ?thesis
    by (simp add: Let_def getenv_def example_config_def new_Parallelizer_def)
qed

subsection \<open>One call of the barrier\<close>

lemma unlinks_append [simp]: "unlinks (xs @ ys) = unlinks xs @ unlinks ys"
  by (induction xs rule: unlinks.induct) auto

lemma unlinks_map_Unlinked [simp]: "unlinks (map Unlinked fs) = fs"
  by (induction fs) auto

lemma drop_Cons_take:
  assumes "drop k l = x # xs"
  shows "take (Suc k) l = take k l @ [x] \<and> drop (Suc k) l = xs"
proof -
  from assms have k: "k < length l" by (metis drop_all list.distinct(1) not_le)
  with assms have "l ! k = x" by (metis nth_via_drop)
  with k have "take (Suc k) l = take k l @ [x]" by (simp add: take_Suc_conv_app_nth)
  moreover from assms have "drop (Suc k) l = xs" by (metis drop_Suc tl_drop list.sel(3))
  ultimately show ?thesis by simp
qed

lemma call_inv_L178:
  assumes "call_inv s0 t ((s, fr), w, evs)" and "pc fr = L178"
    and "barrier_step cfg (s, fr) w = Some (sf1, w1, es)"
  shows "call_inv s0 t (sf1, w1, evs @ es)"
proof -
  from assms(1,2) obtain pre k where
    e: "evs = pre @ Observed (get_barrier_file_name s0 ''cmd'' t (i_barrier s0)) msg_ok
                # map Unlinked (take k (continuous_cleanup_list s0))"
    and u: "unlinks pre = []" and d: "file_list fr = drop k (continuous_cleanup_list s0)"
    and rest: "tag fr = t" "initialized s0" "is_master s0" "s = s0"
      "cmd_file_name fr = get_barrier_file_name s0 ''cmd'' t (i_barrier s0)"
      "ack_file_name fr = get_barrier_file_name s0 ''ack'' t (i_barrier s0)"
    by (auto simp: call_inv_def)
  show ?thesis
  proof (cases "file_list fr")
    case Nil
    with d have "take k (continuous_cleanup_list s0) = continuous_cleanup_list s0" by simp
    with e have r: "released s0 t evs"
      unfolding released_def using u rest(3) by auto
    from Nil assms(2,3) have "sf1 = (s\<lparr>continuous_cleanup_list := []\<rparr>, fr\<lparr>pc := L179\<rparr>)"
      and "es = []"
      by (auto simp: barrier_step_def)
    with r rest show ?thesis by (simp add: call_inv_def)
  next
    case (Cons x xs)
    with assms(2,3) have step: "sf1 = (s, fr\<lparr>file_list := xs\<rparr>)" "es = [Unlinked x]"
      by (auto simp: barrier_step_def)
    from d Cons have "drop k (continuous_cleanup_list s0) = x # xs" by simp
    from drop_Cons_take [OF this]
    have t: "take (Suc k) (continuous_cleanup_list s0) = take k (continuous_cleanup_list s0) @ [x]"
      and d1: "drop (Suc k) (continuous_cleanup_list s0) = xs" by simp_all
    have "evs @ [Unlinked x] = pre @ Observed (get_barrier_file_name s0 ''cmd'' t (i_barrier s0)) msg_ok
                # map Unlinked (take (Suc k) (continuous_cleanup_list s0))"
      using e t by simp
    with u d1 have "\<exists>pre k. evs @ [Unlinked x]
          = pre @ Observed (get_barrier_file_name s0 ''cmd'' t (i_barrier s0)) msg_ok
                  # map Unlinked (take k (continuous_cleanup_list s0))
         \<and> unlinks pre = [] \<and> xs = drop k (continuous_cleanup_list s0)"
      by blast
    with step rest assms(2) show ?thesis by (simp add: call_inv_def)
  qed
qed

lemma call_inv_L173:
  assumes "call_inv s0 t ((s, fr), w, evs)" and "pc fr = L173"
    and "barrier_step cfg (s, fr) w = Some (sf1, w1, es)"
  shows "call_inv s0 t (sf1, w1, evs @ es)"
proof -
  from assms(1,2) have rest: "tag fr = t" "initialized s0" "s = s0"
      "cmd_file_name fr = get_barrier_file_name s0 ''cmd'' t (i_barrier s0)"
      "ack_file_name fr = get_barrier_file_name s0 ''ack'' t (i_barrier s0)"
      "unlinks evs = []"
    by (auto simp: call_inv_def)
  from assms(2,3) have step:
    "sf1 = (s, fr\<lparr>pc := (if is_master s then L178 else L183),
                   file_list := (if is_master s then continuous_cleanup_list s
                                 else file_list fr)\<rparr>)"
    "es = [Observed (cmd_file_name fr) msg_ok]"
    by (auto simp: barrier_step_def split: if_splits)
  show ?thesis
  proof (cases "is_master s0")
    case True
    have "\<exists>pre k. evs @ [Observed (get_barrier_file_name s0 ''cmd'' t (i_barrier s0)) msg_ok]
          = pre @ Observed (get_barrier_file_name s0 ''cmd'' t (i_barrier s0)) msg_ok
                  # map Unlinked (take k (continuous_cleanup_list s0))
         \<and> unlinks pre = [] \<and> continuous_cleanup_list s0 = drop k (continuous_cleanup_list s0)"
      using rest(6) by (intro exI [of _ evs] exI [of _ 0]) simp
    with True step rest show ?thesis by (simp add: call_inv_def)
  next
    case False
    with step rest show ?thesis by (simp add: call_inv_def released_def)
  qed
qed

lemma call_inv_step:
  assumes "call_inv s0 t (sf, w, evs)" and "barrier_step cfg sf w = Some (sf1, w1, es)"
  shows "call_inv s0 t (sf1, w1, evs @ es)"
proof -
  obtain s fr where sf: "sf = (s, fr)" by (cases sf)
  consider "pc fr = L178" | "pc fr = L173" | "pc fr \<noteq> L178 \<and> pc fr \<noteq> L173" by blast
  then show ?thesis
  proof cases
    case 1
    with assms sf show ?thesis using call_inv_L178 by blast
  next
    case 2
    with assms sf show ?thesis using call_inv_L173 by blast
  next
    case 3
    with assms sf show ?thesis
      by (cases "pc fr")
        (auto simp: call_inv_def barrier_step_def released_def split: if_splits sum.splits)
  qed
qed

lemma call_inv_exec:
  assumes "exec cfg ((s0, call_barrier t), w0, []) c"
  shows "call_inv s0 t c"
  using assms
proof (induction rule: exec.induct)
  case exec_refl
  show ?case by (simp add: call_inv_def call_barrier_def)
next
  case (exec_step sf w evs sf1 w1 es)
  then show ?case using call_inv_step by blast
next
  case (exec_others sf w evs w1)
  then show ?case by (simp add: call_inv_def)
qed

lemma run_exec: "run cfg ms c = Some c1 \<Longrightarrow> exec cfg c0 c \<Longrightarrow> exec cfg c0 c1"
proof (induction ms arbitrary: c)
  case Nil
  then show ?case by simp
next
  case (Cons m ms)
  obtain sf w evs where c: "c = (sf, w, evs)" by (cases c)
  show ?case
  proof (cases m)
    case Step
    with Cons.prems c obtain sf1 w1 es where
      b: "barrier_step cfg sf w = Some (sf1, w1, es)"
      and r: "run cfg ms (sf1, w1, evs @ es) = Some c1"
      by (auto split: option.splits)
    from Cons.prems(2) c b have "exec cfg c0 (sf1, w1, evs @ es)" by (auto intro: exec_step)
    with r show ?thesis by (rule Cons.IH)
  next
    case (Others w1)
    with Cons.prems c have r: "run cfg ms (sf, w1, evs) = Some c1" by simp
    from Cons.prems(2) c have "exec cfg c0 (sf, w1, evs)" by (auto intro: exec_others)
    with r show ?thesis by (rule Cons.IH)
  qed
qed

lemma files_fold_unlink:
  "map_of (files (fold unlink fs w)) f = (if f \<in> set fs then None else map_of (files w) f)"
  by (induction fs arbitrary: w) (auto simp: unlink_def delete_conv')

subsection \<open>Runs of the examples\<close>

text \<open>
  The coordinator of a group of one calls \<open>barrier\<close> twice; the process of rank 1 of a
  group of two calls it once, the coordinator's writes arriving between its steps; an
  object on which setup has not run calls it once.
\<close>

lemma run_first_call:
  "run example_config (replicate 12 Step)
     ((example_object 0, call_barrier ''x''), example_world [(''wd/workers'', [''rank_0''])], [])
   = Some (((example_object 0)\<lparr>i_barrier := 1,
               continuous_cleanup_list := [''wd/barrier_cmd_x_0'', ''wd/barrier_ack_x_0'']\<rparr>,
            example_frame (Ret True) 0 1 []),
           example_world [(''wd/workers'', [''rank_0'']), (''wd/barrier_ack_x_0'', [''rank_0'']),
                          (''wd/barrier_cmd_x_0'', [''WAIT'', ''GOON''])],
           example_events 0)"
  by code_simp

lemma run_second_call:
  "run example_config (replicate 14 Step)
     (((example_object 0)\<lparr>i_barrier := 1,
               continuous_cleanup_list := [''wd/barrier_cmd_x_0'', ''wd/barrier_ack_x_0'']\<rparr>,
       call_barrier ''x''),
      example_world [(''wd/workers'', [''rank_0'']), (''wd/barrier_ack_x_0'', [''rank_0'']),
                     (''wd/barrier_cmd_x_0'', [''WAIT'', ''GOON''])], [])
   = Some (((example_object 0)\<lparr>i_barrier := 2,
               continuous_cleanup_list := [''wd/barrier_cmd_x_1'', ''wd/barrier_ack_x_1'']\<rparr>,
            example_frame (Ret True) 1 1 []),
           example_world [(''wd/workers'', [''rank_0'']), (''wd/barrier_ack_x_1'', [''rank_0'']),
                          (''wd/barrier_cmd_x_1'', [''WAIT'', ''GOON''])],
           example_events 1 @ [Unlinked ''wd/barrier_cmd_x_0'', Unlinked ''wd/barrier_ack_x_0''])"
  by code_simp

lemma run_second_call_released:
  "run example_config (replicate 9 Step)
     (((example_object 0)\<lparr>i_barrier := 1,
               continuous_cleanup_list := [''wd/barrier_cmd_x_0'', ''wd/barrier_ack_x_0'']\<rparr>,
       call_barrier ''x''),
      example_world [(''wd/workers'', [''rank_0'']), (''wd/barrier_ack_x_0'', [''rank_0'']),
                     (''wd/barrier_cmd_x_0'', [''WAIT'', ''GOON''])], [])
   = Some (((example_object 0)\<lparr>i_barrier := 1,
               continuous_cleanup_list := [''wd/barrier_cmd_x_0'', ''wd/barrier_ack_x_0'']\<rparr>,
            example_frame L178 1 1 [''wd/barrier_cmd_x_0'', ''wd/barrier_ack_x_0'']),
           example_world [(''wd/workers'', [''rank_0'']), (''wd/barrier_ack_x_0'', [''rank_0'']),
                          (''wd/barrier_cmd_x_0'', [''WAIT'', ''GOON'']),
                          (''wd/barrier_ack_x_1'', [''rank_0'']),
                          (''wd/barrier_cmd_x_1'', [''WAIT'', ''GOON''])],
           example_events 1)"
  by code_simp

lemma run_worker_call:
  "run example_config
     [Step,
      Others (example_world [(''wd/workers'', [''rank_0'', ''rank_1'']),
                             (''wd/barrier_cmd_x_0'', [''WAIT''])]),
      Step, Step,
      Others (example_world [(''wd/workers'', [''rank_0'', ''rank_1'']),
                             (''wd/barrier_cmd_x_0'', [''WAIT'', ''GOON'']),
                             (''wd/barrier_ack_x_0'', [''rank_0'', ''rank_1''])]),
      Step, Step]
     ((example_object 1, call_barrier ''x''),
      example_world [(''wd/workers'', [''rank_0'', ''rank_1''])], [])
   = Some (((example_object 1)\<lparr>i_barrier := 1\<rparr>, example_frame (Ret True) 0 0 []),
           example_world [(''wd/workers'', [''rank_0'', ''rank_1'']),
                          (''wd/barrier_cmd_x_0'', [''WAIT'', ''GOON'']),
                          (''wd/barrier_ack_x_0'', [''rank_0'', ''rank_1''])],
           [Observed ''wd/barrier_cmd_x_0'' ''WAIT'', Pushed ''wd/barrier_ack_x_0'' ''rank_1'',
            Observed ''wd/barrier_cmd_x_0'' ''GOON''])"
  by code_simp

lemma run_uninitialized_call:
  "run example_config [Step]
     ((new_Parallelizer (- 1) False, call_barrier ''x''), example_world [], [])
   = Some ((new_Parallelizer (- 1) False, (call_barrier ''x'')\<lparr>pc := Ret False\<rparr>),
           example_world [], [])"
  by code_simp

subsection \<open>The barrier before setup\<close>

text \<open>
  Claim C2. On an object whose \<open>initialized\<close> is false, the one step of a call of
  \<open>barrier\<close> returns false: it throws nothing, leaves the object and the file system
  as they are and performs no operation on a queue, and the call has no further step;
  whatever the other processes do meanwhile, the object stays unchanged and the call
  has no event.
\<close>

theorem barrier_before_setup:
  assumes "\<not> initialized s"
  shows "barrier_step cfg (s, call_barrier t) w
           = Some ((s, (call_barrier t)\<lparr>pc := Ret False\<rparr>), w, []) \<and>
         barrier_step cfg (s, (call_barrier t)\<lparr>pc := Ret False\<rparr>) w1 = None \<and>
         (\<forall>s1 fr1 w2 evs. exec cfg ((s, call_barrier t), w, []) ((s1, fr1), w2, evs)
             \<longrightarrow> s1 = s \<and> evs = [] \<and> (pc fr1 = L146 \<or> pc fr1 = Ret False))"
proof -
  have a: "barrier_step cfg (s, call_barrier t) w
           = Some ((s, (call_barrier t)\<lparr>pc := Ret False\<rparr>), w, [])"
    using assms by (simp add: barrier_step_def call_barrier_def)
  have b: "barrier_step cfg (s, (call_barrier t)\<lparr>pc := Ret False\<rparr>) w1 = None"
    by (simp add: barrier_step_def)
  have c: "s1 = s \<and> evs = [] \<and> (pc fr1 = L146 \<or> pc fr1 = Ret False)"
    if "exec cfg ((s, call_barrier t), w, []) ((s1, fr1), w2, evs)" for s1 fr1 w2 evs
  proof -
    from call_inv_exec [OF that] have "call_inv s t ((s1, fr1), w2, evs)" .
    with assms show ?thesis
      by (cases "pc fr1") (auto simp: call_inv_def split: if_splits)
  qed
  from a b c show ?thesis by blast
qed

text \<open>A call on a new object, on which \<open>init\<close> has not run.\<close>

theorem barrier_before_setup_witness:
  "\<not> initialized (new_Parallelizer (- 1) False) \<and>
   barrier_step example_config (new_Parallelizer (- 1) False, call_barrier ''x'') (example_world [])
     = Some ((new_Parallelizer (- 1) False, (call_barrier ''x'')\<lparr>pc := Ret False\<rparr>),
             example_world [], []) \<and>
   barrier_step example_config
     (new_Parallelizer (- 1) False, (call_barrier ''x'')\<lparr>pc := Ret False\<rparr>) (example_world [])
     = None"
proof -
  have h: "\<not> initialized (new_Parallelizer (- 1) False)"
    by (simp add: new_Parallelizer_def)
  from barrier_before_setup [OF h, of example_config "''x''" "example_world []" "example_world []"] h
  show ?thesis by blast
qed

subsection \<open>The step index\<close>

text \<open>
  Claim C3 as stated fails: a call before setup returns false and leaves the step index
  at 0, where the claim has it incremented whether or not the call succeeds.
\<close>

theorem step_index_counterexample:
  "run example_config [Step]
     ((new_Parallelizer (- 1) False, call_barrier ''x''), example_world [], [])
   = Some ((new_Parallelizer (- 1) False, (call_barrier ''x'')\<lparr>pc := Ret False\<rparr>),
           example_world [], []) \<and>
   i_barrier (new_Parallelizer (- 1) False) = 0"
  using run_uninitialized_call by (simp add: new_Parallelizer_def)

text \<open>
  Claim C3, amended. The step index of a new object is 0. A call of \<open>barrier\<close> that
  returns, returns whether the object is initialized; when it is, the step index after
  the call is one more than before, for every tag, on the coordinator and on every
  other process; when it is not, the step index is unchanged.
\<close>

theorem step_index_increments:
  assumes "exec cfg ((s, call_barrier t), w, []) ((s1, fr1), w1, evs)" and "pc fr1 = Ret b"
  shows "i_barrier (new_Parallelizer rank0 initialized0) = 0 \<and>
         b = initialized s \<and>
         i_barrier s1 = (if initialized s then i_barrier s + 1 else i_barrier s)"
proof -
  from call_inv_exec [OF assms(1)] have "call_inv s t ((s1, fr1), w1, evs)" .
  with assms(2) show ?thesis
    by (cases b) (auto simp: call_inv_def new_Parallelizer_def)
qed

text \<open>
  The coordinator and the process of rank 1 each return with the step index 1; the
  call before setup returns with the step index 0.
\<close>

theorem step_index_increments_witness:
  "i_barrier ((example_object 0)\<lparr>i_barrier := 1,
               continuous_cleanup_list := [''wd/barrier_cmd_x_0'', ''wd/barrier_ack_x_0'']\<rparr>)
     = i_barrier (example_object 0) + 1 \<and>
   i_barrier ((example_object 1)\<lparr>i_barrier := 1\<rparr>) = i_barrier (example_object 1) + 1 \<and>
   \<not> initialized (new_Parallelizer (- 1) False) \<and>
   i_barrier (new_Parallelizer (- 1) False) = 0"
proof -
  have e0: "exec example_config
     ((example_object 0, call_barrier ''x''), example_world [(''wd/workers'', [''rank_0''])], [])
     (((example_object 0)\<lparr>i_barrier := 1,
               continuous_cleanup_list := [''wd/barrier_cmd_x_0'', ''wd/barrier_ack_x_0'']\<rparr>,
            example_frame (Ret True) 0 1 []),
           example_world [(''wd/workers'', [''rank_0'']), (''wd/barrier_ack_x_0'', [''rank_0'']),
                          (''wd/barrier_cmd_x_0'', [''WAIT'', ''GOON''])],
           example_events 0)"
    by (rule run_exec [OF run_first_call exec_refl])
  have e1: "exec example_config
     ((example_object 1, call_barrier ''x''),
      example_world [(''wd/workers'', [''rank_0'', ''rank_1''])], [])
     (((example_object 1)\<lparr>i_barrier := 1\<rparr>, example_frame (Ret True) 0 0 []),
           example_world [(''wd/workers'', [''rank_0'', ''rank_1'']),
                          (''wd/barrier_cmd_x_0'', [''WAIT'', ''GOON'']),
                          (''wd/barrier_ack_x_0'', [''rank_0'', ''rank_1''])],
           [Observed ''wd/barrier_cmd_x_0'' ''WAIT'', Pushed ''wd/barrier_ack_x_0'' ''rank_1'',
            Observed ''wd/barrier_cmd_x_0'' ''GOON''])"
    by (rule run_exec [OF run_worker_call exec_refl])
  have e2: "exec example_config
     ((new_Parallelizer (- 1) False, call_barrier ''x''), example_world [], [])
     ((new_Parallelizer (- 1) False, (call_barrier ''x'')\<lparr>pc := Ret False\<rparr>),
           example_world [], [])"
    by (rule run_exec [OF run_uninitialized_call exec_refl])
  have p: "pc (example_frame (Ret True) 0 n []) = Ret True" for n
    by (simp add: example_frame_def)
  have q: "pc ((call_barrier ''x'')\<lparr>pc := Ret False\<rparr>) = Ret False" by simp
  have i: "initialized (example_object r)" for r
    by (simp add: example_object_def)
  from step_index_increments [OF e0 p, of "- 1" False] i
  have a: "i_barrier ((example_object 0)\<lparr>i_barrier := 1,
               continuous_cleanup_list := [''wd/barrier_cmd_x_0'', ''wd/barrier_ack_x_0'']\<rparr>)
     = i_barrier (example_object 0) + 1"
    by presburger
  from step_index_increments [OF e1 p, of "- 1" False] i
  have b: "i_barrier ((example_object 1)\<lparr>i_barrier := 1\<rparr>) = i_barrier (example_object 1) + 1"
    by presburger
  from step_index_increments [OF e2 q, of "- 1" False]
  have c: "\<not> initialized (new_Parallelizer (- 1) False) \<and> i_barrier (new_Parallelizer (- 1) False) = 0"
    by blast
  from a b c show ?thesis by blast
qed

subsection \<open>The names of the barrier files\<close>

text \<open>
  Claim C4. Two successive calls of \<open>barrier\<close> with the same tag on one process
  that both return true use different command files and different ack files: the first
  uses the names of the step index on entry, the second those of the next index, and
  the name is injective in the index.
\<close>

theorem barrier_file_names_distinct:
  assumes "exec cfg ((s, call_barrier t), w, []) ((s1, fr1), w1, evs1)" and "pc fr1 = Ret True"
    and "exec cfg ((s1, call_barrier t), w2, []) ((s2, fr2), w3, evs2)" and "pc fr2 = Ret True"
  shows "cmd_file_name fr1 \<noteq> cmd_file_name fr2 \<and> ack_file_name fr1 \<noteq> ack_file_name fr2 \<and>
         cmd_file_name fr1 = get_barrier_file_name s ''cmd'' t (i_barrier s) \<and>
         ack_file_name fr1 = get_barrier_file_name s ''ack'' t (i_barrier s) \<and>
         cmd_file_name fr2 = get_barrier_file_name s ''cmd'' t (i_barrier s + 1) \<and>
         ack_file_name fr2 = get_barrier_file_name s ''ack'' t (i_barrier s + 1) \<and>
         (\<forall>step i j. get_barrier_file_name s step t i = get_barrier_file_name s step t j
             \<longrightarrow> i = j)"
proof -
  from call_inv_exec [OF assms(1)] assms(2)
  have 1: "cmd_file_name fr1 = get_barrier_file_name s ''cmd'' t (i_barrier s)"
    "ack_file_name fr1 = get_barrier_file_name s ''ack'' t (i_barrier s)"
    "i_barrier s1 = i_barrier s + 1" "barrier_file s1 = barrier_file s"
    by (auto simp: call_inv_def)
  from call_inv_exec [OF assms(3)] assms(4)
  have 2: "cmd_file_name fr2 = get_barrier_file_name s1 ''cmd'' t (i_barrier s1)"
    "ack_file_name fr2 = get_barrier_file_name s1 ''ack'' t (i_barrier s1)"
    by (auto simp: call_inv_def)
  have same: "get_barrier_file_name s1 step u i = get_barrier_file_name s step u i" for step u i
    using 1(4) by (simp add: get_barrier_file_name_def)
  have inj: "i = j" if "get_barrier_file_name s step t i = get_barrier_file_name s step t j"
    for step i j
    using get_barrier_file_name_inj [OF that] by simp
  have "get_barrier_file_name s step t (i_barrier s)
      \<noteq> get_barrier_file_name s step t (i_barrier s + 1)" for step
    using inj [of step "i_barrier s" "i_barrier s + 1"] by auto
  with 1 2 same inj show ?thesis by auto
qed

text \<open>The two calls of the coordinator use the files of the indices 0 and 1.\<close>

theorem barrier_file_names_distinct_witness:
  "cmd_file_name (example_frame (Ret True) 0 1 []) \<noteq> cmd_file_name (example_frame (Ret True) 1 1 []) \<and>
   ack_file_name (example_frame (Ret True) 0 1 []) \<noteq> ack_file_name (example_frame (Ret True) 1 1 []) \<and>
   cmd_file_name (example_frame (Ret True) 0 1 []) = ''wd/barrier_cmd_x_0'' \<and>
   cmd_file_name (example_frame (Ret True) 1 1 []) = ''wd/barrier_cmd_x_1''"
proof -
  have e0: "exec example_config
     ((example_object 0, call_barrier ''x''), example_world [(''wd/workers'', [''rank_0''])], [])
     (((example_object 0)\<lparr>i_barrier := 1,
               continuous_cleanup_list := [''wd/barrier_cmd_x_0'', ''wd/barrier_ack_x_0'']\<rparr>,
            example_frame (Ret True) 0 1 []),
           example_world [(''wd/workers'', [''rank_0'']), (''wd/barrier_ack_x_0'', [''rank_0'']),
                          (''wd/barrier_cmd_x_0'', [''WAIT'', ''GOON''])],
           example_events 0)"
    by (rule run_exec [OF run_first_call exec_refl])
  have e1: "exec example_config
     (((example_object 0)\<lparr>i_barrier := 1,
               continuous_cleanup_list := [''wd/barrier_cmd_x_0'', ''wd/barrier_ack_x_0'']\<rparr>,
       call_barrier ''x''),
      example_world [(''wd/workers'', [''rank_0'']), (''wd/barrier_ack_x_0'', [''rank_0'']),
                     (''wd/barrier_cmd_x_0'', [''WAIT'', ''GOON''])], [])
     (((example_object 0)\<lparr>i_barrier := 2,
               continuous_cleanup_list := [''wd/barrier_cmd_x_1'', ''wd/barrier_ack_x_1'']\<rparr>,
            example_frame (Ret True) 1 1 []),
           example_world [(''wd/workers'', [''rank_0'']), (''wd/barrier_ack_x_1'', [''rank_0'']),
                          (''wd/barrier_cmd_x_1'', [''WAIT'', ''GOON''])],
           example_events 1 @ [Unlinked ''wd/barrier_cmd_x_0'', Unlinked ''wd/barrier_ack_x_0''])"
    by (rule run_exec [OF run_second_call exec_refl])
  have p: "pc (example_frame (Ret True) i n []) = Ret True" for i n
    by (simp add: example_frame_def)
  from barrier_file_names_distinct [OF e0 p e1 p]
  have d: "cmd_file_name (example_frame (Ret True) 0 1 []) \<noteq> cmd_file_name (example_frame (Ret True) 1 1 []) \<and>
      ack_file_name (example_frame (Ret True) 0 1 []) \<noteq> ack_file_name (example_frame (Ret True) 1 1 [])"
    by blast
  have n: "cmd_file_name (example_frame (Ret True) 0 1 []) = ''wd/barrier_cmd_x_0'' \<and>
      cmd_file_name (example_frame (Ret True) 1 1 []) = ''wd/barrier_cmd_x_1''"
    by (simp add: example_frame_def to_string_0 to_string_1)
  from d n show ?thesis by blast
qed

subsection \<open>Cleanup\<close>

text \<open>
  Claim C9 as stated fails: the files of the previous step are not deleted at the start
  of the next call. In its second call the coordinator has cleared, pushed, polled and
  observed \<open>GOON\<close>, the last event so far, and has unlinked nothing: both files of
  the first step are still there. Nor does the final list hold the files of the barrier
  queues the call opened.
\<close>

theorem cleanup_lag_counterexample:
  "continuous_cleanup_list ((example_object 0)\<lparr>i_barrier := 1,
               continuous_cleanup_list := [''wd/barrier_cmd_x_0'', ''wd/barrier_ack_x_0'']\<rparr>)
     = [''wd/barrier_cmd_x_0'', ''wd/barrier_ack_x_0''] \<and>
   run example_config (replicate 9 Step)
     (((example_object 0)\<lparr>i_barrier := 1,
               continuous_cleanup_list := [''wd/barrier_cmd_x_0'', ''wd/barrier_ack_x_0'']\<rparr>,
       call_barrier ''x''),
      example_world [(''wd/workers'', [''rank_0'']), (''wd/barrier_ack_x_0'', [''rank_0'']),
                     (''wd/barrier_cmd_x_0'', [''WAIT'', ''GOON''])], [])
   = Some (((example_object 0)\<lparr>i_barrier := 1,
               continuous_cleanup_list := [''wd/barrier_cmd_x_0'', ''wd/barrier_ack_x_0'']\<rparr>,
            example_frame L178 1 1 [''wd/barrier_cmd_x_0'', ''wd/barrier_ack_x_0'']),
           example_world [(''wd/workers'', [''rank_0'']), (''wd/barrier_ack_x_0'', [''rank_0'']),
                          (''wd/barrier_cmd_x_0'', [''WAIT'', ''GOON'']),
                          (''wd/barrier_ack_x_1'', [''rank_0'']),
                          (''wd/barrier_cmd_x_1'', [''WAIT'', ''GOON''])],
           example_events 1) \<and>
   last (example_events 1) = Observed ''wd/barrier_cmd_x_1'' ''GOON'' \<and>
   unlinks (example_events 1) = [] \<and>
   ''wd/barrier_cmd_x_0'' \<notin> set (final_cleanup_list (example_object 0))"
proof -
  have a: "last (example_events 1) = Observed ''wd/barrier_cmd_x_1'' ''GOON''"
    by (simp add: example_events_def to_string_1)
  have b: "unlinks (example_events 1) = []"
    by (simp add: example_events_def)
  have c: "''wd/barrier_cmd_x_0'' \<notin> set (final_cleanup_list (example_object 0))"
    by (simp add: example_object_def to_string_0)
  from run_second_call_released a b c show ?thesis by simp
qed

text \<open>
  Claim C9, amended. After a call of \<open>barrier\<close> that returns true, the continuous list
  of the coordinator holds the command and the ack file of that call, and the
  unlinks of the call are those of the files the list held on entry, all after the
  observation of \<open>GOON\<close> that ends the release phase; the continuous list of another
  process is unchanged and the process unlinks nothing. The call leaves the final list
  as it is. The destructor unlinks the files of the continuous list, empties that
  list, and leaves every other file and the final list alone. \<open>create_stack\<close> keeps
  what the final list holds and, when it creates a queue, appends the backing path.
\<close>

theorem cleanup_one_generation_lag:
  assumes "exec cfg ((s, call_barrier t), w, []) ((s1, fr1), w1, evs)" and "pc fr1 = Ret True"
  shows "(is_master s \<longrightarrow>
            continuous_cleanup_list s1
              = [get_barrier_file_name s ''cmd'' t (i_barrier s),
                 get_barrier_file_name s ''ack'' t (i_barrier s)] \<and>
            (\<exists>pre. evs = pre @ Observed (get_barrier_file_name s ''cmd'' t (i_barrier s)) msg_ok
                             # map Unlinked (continuous_cleanup_list s)
                    \<and> unlinks pre = [])) \<and>
         (\<not> is_master s \<longrightarrow>
            continuous_cleanup_list s1 = continuous_cleanup_list s \<and> unlinks evs = []) \<and>
         final_cleanup_list s1 = final_cleanup_list s \<and>
         destroy (s1, w1)
           = (s1\<lparr>continuous_cleanup_list := []\<rparr>, fold unlink (continuous_cleanup_list s1) w1) \<and>
         (\<forall>f. map_of (files (snd (destroy (s1, w1)))) f
                = (if f \<in> set (continuous_cleanup_list s1) then None else map_of (files w1) f)) \<and>
         (\<forall>tg sfx. set (final_cleanup_list s1)
                \<subseteq> set (final_cleanup_list (snd (create_stack cfg tg sfx s1)))) \<and>
         (\<forall>tg sfx. fst (create_stack cfg tg sfx s1) \<longrightarrow>
              final_cleanup_list (snd (create_stack cfg tg sfx s1))
                = final_cleanup_list s1
                  @ [join_path cfg (work_directory s1)
                       (tg @ (if sfx = [] then [] else ''_'' @ sfx))])"
proof -
  from call_inv_exec [OF assms(1)] assms(2)
  have inv: "s1 = s\<lparr>i_barrier := i_barrier s + 1,
                     continuous_cleanup_list :=
                       (if is_master s
                        then [get_barrier_file_name s ''cmd'' t (i_barrier s),
                              get_barrier_file_name s ''ack'' t (i_barrier s)]
                        else continuous_cleanup_list s)\<rparr>"
    and rel: "released s t evs"
    by (auto simp: call_inv_def)
  have 1: "is_master s \<longrightarrow>
            continuous_cleanup_list s1
              = [get_barrier_file_name s ''cmd'' t (i_barrier s),
                 get_barrier_file_name s ''ack'' t (i_barrier s)] \<and>
            (\<exists>pre. evs = pre @ Observed (get_barrier_file_name s ''cmd'' t (i_barrier s)) msg_ok
                             # map Unlinked (continuous_cleanup_list s)
                    \<and> unlinks pre = [])"
    using rel by (subst inv) (simp add: released_def)
  have 2: "\<not> is_master s \<longrightarrow>
            continuous_cleanup_list s1 = continuous_cleanup_list s \<and> unlinks evs = []"
    using rel by (subst inv) (simp add: released_def)
  have 3: "final_cleanup_list s1 = final_cleanup_list s"
    by (subst inv) simp
  have 4: "destroy (s1, w1)
           = (s1\<lparr>continuous_cleanup_list := []\<rparr>, fold unlink (continuous_cleanup_list s1) w1)"
    by (simp add: destroy_def clean_def)
  have 5: "map_of (files (snd (destroy (s1, w1)))) f
                = (if f \<in> set (continuous_cleanup_list s1) then None else map_of (files w1) f)" for f
    by (simp add: 4 files_fold_unlink)
  have 6: "set (final_cleanup_list s1)
                \<subseteq> set (final_cleanup_list (snd (create_stack cfg tg sfx s1)))" for tg sfx
    by (auto simp: create_stack_def create_stack_from_file_def Let_def)
  have 7: "final_cleanup_list (snd (create_stack cfg tg sfx s1))
                = final_cleanup_list s1
                  @ [join_path cfg (work_directory s1)
                       (tg @ (if sfx = [] then [] else ''_'' @ sfx))]"
    if "fst (create_stack cfg tg sfx s1)" for tg sfx
    using that
    by (auto simp: create_stack_def create_stack_from_file_def Let_def split: if_splits)
  from 1 2 3 4 5 6 7 show ?thesis by blast
qed

text \<open>
  The second call of the coordinator unlinks the two files of the first after it has
  observed \<open>GOON\<close>; the destructor then unlinks the two files of the second.
\<close>

theorem cleanup_one_generation_lag_witness:
  "continuous_cleanup_list ((example_object 0)\<lparr>i_barrier := 2,
               continuous_cleanup_list := [''wd/barrier_cmd_x_1'', ''wd/barrier_ack_x_1'']\<rparr>)
     = [''wd/barrier_cmd_x_1'', ''wd/barrier_ack_x_1''] \<and>
   (\<exists>pre. example_events 1 @ [Unlinked ''wd/barrier_cmd_x_0'', Unlinked ''wd/barrier_ack_x_0'']
           = pre @ Observed ''wd/barrier_cmd_x_1'' ''GOON''
               # map Unlinked [''wd/barrier_cmd_x_0'', ''wd/barrier_ack_x_0'']
         \<and> unlinks pre = []) \<and>
   continuous_cleanup_list ((example_object 1)\<lparr>i_barrier := 1\<rparr>) = [] \<and>
   destroy ((example_object 0)\<lparr>i_barrier := 2,
               continuous_cleanup_list := [''wd/barrier_cmd_x_1'', ''wd/barrier_ack_x_1'']\<rparr>,
            example_world [(''wd/workers'', [''rank_0'']), (''wd/barrier_ack_x_1'', [''rank_0'']),
                           (''wd/barrier_cmd_x_1'', [''WAIT'', ''GOON''])])
     = ((example_object 0)\<lparr>i_barrier := 2, continuous_cleanup_list := []\<rparr>,
        example_world [(''wd/workers'', [''rank_0''])])"
proof -
  have e1: "exec example_config
     (((example_object 0)\<lparr>i_barrier := 1,
               continuous_cleanup_list := [''wd/barrier_cmd_x_0'', ''wd/barrier_ack_x_0'']\<rparr>,
       call_barrier ''x''),
      example_world [(''wd/workers'', [''rank_0'']), (''wd/barrier_ack_x_0'', [''rank_0'']),
                     (''wd/barrier_cmd_x_0'', [''WAIT'', ''GOON''])], [])
     (((example_object 0)\<lparr>i_barrier := 2,
               continuous_cleanup_list := [''wd/barrier_cmd_x_1'', ''wd/barrier_ack_x_1'']\<rparr>,
            example_frame (Ret True) 1 1 []),
           example_world [(''wd/workers'', [''rank_0'']), (''wd/barrier_ack_x_1'', [''rank_0'']),
                          (''wd/barrier_cmd_x_1'', [''WAIT'', ''GOON''])],
           example_events 1 @ [Unlinked ''wd/barrier_cmd_x_0'', Unlinked ''wd/barrier_ack_x_0''])"
    by (rule run_exec [OF run_second_call exec_refl])
  have e2: "exec example_config
     ((example_object 1, call_barrier ''x''),
      example_world [(''wd/workers'', [''rank_0'', ''rank_1''])], [])
     (((example_object 1)\<lparr>i_barrier := 1\<rparr>, example_frame (Ret True) 0 0 []),
           example_world [(''wd/workers'', [''rank_0'', ''rank_1'']),
                          (''wd/barrier_cmd_x_0'', [''WAIT'', ''GOON'']),
                          (''wd/barrier_ack_x_0'', [''rank_0'', ''rank_1''])],
           [Observed ''wd/barrier_cmd_x_0'' ''WAIT'', Pushed ''wd/barrier_ack_x_0'' ''rank_1'',
            Observed ''wd/barrier_cmd_x_0'' ''GOON''])"
    by (rule run_exec [OF run_worker_call exec_refl])
  have p: "pc (example_frame (Ret True) i n []) = Ret True" for i n
    by (simp add: example_frame_def)
  have m: "is_master ((example_object 0)\<lparr>i_barrier := 1,
               continuous_cleanup_list := [''wd/barrier_cmd_x_0'', ''wd/barrier_ack_x_0'']\<rparr>)"
    "\<not> is_master (example_object 1)"
    by (simp_all add: is_master_def example_object_def)
  have n: "get_barrier_file_name ((example_object 0)\<lparr>i_barrier := 1,
               continuous_cleanup_list := [''wd/barrier_cmd_x_0'', ''wd/barrier_ack_x_0'']\<rparr>)
             ''cmd'' ''x'' 1 = ''wd/barrier_cmd_x_1''"
    by (simp add: get_barrier_file_name_def example_object_def to_string_1)
  have d: "unlink ''wd/barrier_ack_x_1'' (unlink ''wd/barrier_cmd_x_1''
       (example_world [(''wd/workers'', [''rank_0'']), (''wd/barrier_ack_x_1'', [''rank_0'']),
                           (''wd/barrier_cmd_x_1'', [''WAIT'', ''GOON''])]))
     = example_world [(''wd/workers'', [''rank_0''])]"
    by code_simp
  let ?s1 = "(example_object 0)\<lparr>i_barrier := 1,
               continuous_cleanup_list := [''wd/barrier_cmd_x_0'', ''wd/barrier_ack_x_0'']\<rparr>"
  let ?s2 = "(example_object 0)\<lparr>i_barrier := 2,
               continuous_cleanup_list := [''wd/barrier_cmd_x_1'', ''wd/barrier_ack_x_1'']\<rparr>"
  let ?w2 = "example_world [(''wd/workers'', [''rank_0'']), (''wd/barrier_ack_x_1'', [''rank_0'']),
                           (''wd/barrier_cmd_x_1'', [''WAIT'', ''GOON''])]"
  note T1 = cleanup_one_generation_lag [OF e1 p]
  note T2 = cleanup_one_generation_lag [OF e2 p]
  from T1 m(1) have "\<exists>pre. example_events 1 @ [Unlinked ''wd/barrier_cmd_x_0'', Unlinked ''wd/barrier_ack_x_0'']
           = pre @ Observed (get_barrier_file_name ?s1 ''cmd'' ''x'' (i_barrier ?s1)) msg_ok
               # map Unlinked (continuous_cleanup_list ?s1)
         \<and> unlinks pre = []"
    by blast
  moreover have "get_barrier_file_name ?s1 ''cmd'' ''x'' (i_barrier ?s1) = ''wd/barrier_cmd_x_1''"
    using n by simp
  moreover have "continuous_cleanup_list ?s1 = [''wd/barrier_cmd_x_0'', ''wd/barrier_ack_x_0'']"
    by simp
  ultimately have a: "\<exists>pre. example_events 1 @ [Unlinked ''wd/barrier_cmd_x_0'', Unlinked ''wd/barrier_ack_x_0'']
           = pre @ Observed ''wd/barrier_cmd_x_1'' ''GOON''
               # map Unlinked [''wd/barrier_cmd_x_0'', ''wd/barrier_ack_x_0'']
         \<and> unlinks pre = []"
    by (simp only: msg_ok_def)
  from T2 m(2) have "continuous_cleanup_list ((example_object 1)\<lparr>i_barrier := 1\<rparr>)
      = continuous_cleanup_list (example_object 1)"
    by blast
  then have b: "continuous_cleanup_list ((example_object 1)\<lparr>i_barrier := 1\<rparr>) = []"
    by (simp add: example_object_def)
  from T1 have "destroy (?s2, ?w2)
      = (?s2\<lparr>continuous_cleanup_list := []\<rparr>, fold unlink (continuous_cleanup_list ?s2) ?w2)"
    by blast
  moreover have "continuous_cleanup_list ?s2 = [''wd/barrier_cmd_x_1'', ''wd/barrier_ack_x_1'']"
    by simp
  ultimately have c: "destroy (?s2, ?w2)
     = ((example_object 0)\<lparr>i_barrier := 2, continuous_cleanup_list := []\<rparr>,
        example_world [(''wd/workers'', [''rank_0''])])"
    by (simp add: d)
  have e: "continuous_cleanup_list ?s2 = [''wd/barrier_cmd_x_1'', ''wd/barrier_ack_x_1'']"
    by simp
  from e a b c show ?thesis by blast
qed

subsection \<open>The steps of the barrier, case by case\<close>

lemma barrier_step_cases [consumes 1, case_names uninit enter clear wait saw_wait ack
    no_workers sized reached goon saw_goon unlinked cleaned recorded incr]:
  assumes "barrier_step cfg (s, fr) w = Some ((s1, fr1), w1, es)"
  obtains
    "pc fr = L146" "\<not> initialized s" "s1 = s" "fr1 = fr\<lparr>pc := Ret False\<rparr>" "w1 = w" "es = []"
  | "pc fr = L146" "initialized s" "s1 = s"
      "fr1 = fr\<lparr>pc := (if is_master s then L159 else L162),
                 cmd_file_name := get_barrier_file_name s ''cmd'' (tag fr) (i_barrier s),
                 ack_file_name := get_barrier_file_name s ''ack'' (tag fr) (i_barrier s)\<rparr>"
      "w1 = w" "es = []"
  | "pc fr = L159" "s1 = s" "fr1 = fr\<lparr>pc := L160\<rparr>"
      "w1 = FileStack_clear (ack_file_name fr) w" "es = [Cleared (ack_file_name fr)]"
  | "pc fr = L160" "s1 = s" "fr1 = fr\<lparr>pc := L162\<rparr>"
      "w1 = FileStack_push (cmd_file_name fr) msg w" "es = [Pushed (cmd_file_name fr) msg]"
  | "pc fr = L162" "msg \<in> set (contents w (cmd_file_name fr))" "s1 = s" "fr1 = fr\<lparr>pc := L163\<rparr>"
      "w1 = w" "es = [Observed (cmd_file_name fr) msg]"
  | "pc fr = L163" "s1 = s" "fr1 = fr\<lparr>pc := (if is_master s then L169 else L173)\<rparr>"
      "w1 = FileStack_push (ack_file_name fr) (id_str s) w"
      "es = [Pushed (ack_file_name fr) (id_str s)]"
  | e where "pc fr = L169" "get_stack (WORKERS cfg) s = Inl e" "s1 = s"
      "fr1 = fr\<lparr>pc := Thrown e\<rparr>" "w1 = w" "es = []"
  | wkf where "pc fr = L169" "get_stack (WORKERS cfg) s = Inr wkf" "s1 = s"
      "fr1 = fr\<lparr>pc := L170, n_workers := length (contents w wkf)\<rparr>" "w1 = w" "es = []"
  | "pc fr = L170" "n_workers fr \<le> length (contents w (ack_file_name fr))" "s1 = s"
      "fr1 = fr\<lparr>pc := L171\<rparr>" "w1 = w" "es = [SizeReached (ack_file_name fr) (n_workers fr)]"
  | "pc fr = L171" "s1 = s" "fr1 = fr\<lparr>pc := L173\<rparr>"
      "w1 = FileStack_push (cmd_file_name fr) msg_ok w" "es = [Pushed (cmd_file_name fr) msg_ok]"
  | "pc fr = L173" "msg_ok \<in> set (contents w (cmd_file_name fr))" "s1 = s"
      "fr1 = fr\<lparr>pc := (if is_master s then L178 else L183),
                 file_list := (if is_master s then continuous_cleanup_list s else file_list fr)\<rparr>"
      "w1 = w" "es = [Observed (cmd_file_name fr) msg_ok]"
  | x xs where "pc fr = L178" "file_list fr = x # xs" "s1 = s" "fr1 = fr\<lparr>file_list := xs\<rparr>"
      "w1 = unlink x w" "es = [Unlinked x]"
  | "pc fr = L178" "file_list fr = []" "s1 = s\<lparr>continuous_cleanup_list := []\<rparr>"
      "fr1 = fr\<lparr>pc := L179\<rparr>" "w1 = w" "es = []"
  | "pc fr = L179"
      "s1 = s\<lparr>continuous_cleanup_list :=
               continuous_cleanup_list s @ [cmd_file_name fr, ack_file_name fr]\<rparr>"
      "fr1 = fr\<lparr>pc := L183\<rparr>" "w1 = w" "es = []"
  | "pc fr = L183" "s1 = s\<lparr>i_barrier := i_barrier s + 1\<rparr>" "fr1 = fr\<lparr>pc := Ret True\<rparr>"
      "w1 = w" "es = []"
proof (cases "pc fr")
  case Idle
  with assms show ?thesis by (simp add: barrier_step_def)
next
  case L146
  with assms show ?thesis
    by (cases "initialized s") (auto simp: barrier_step_def intro: that(1) that(2))
next
  case L159
  with assms show ?thesis by (intro that(3)) (auto simp: barrier_step_def)
next
  case L160
  with assms show ?thesis by (intro that(4)) (auto simp: barrier_step_def)
next
  case L162
  with assms show ?thesis
    by (intro that(5))
      (auto simp: barrier_step_def FileStack_poll_query_def split: if_splits)
next
  case L163
  with assms show ?thesis by (intro that(6)) (auto simp: barrier_step_def)
next
  case L169
  show ?thesis
  proof (cases "get_stack (WORKERS cfg) s")
    case (Inl e)
    with L169 assms show ?thesis by (intro that(7) [of e]) (auto simp: barrier_step_def)
  next
    case (Inr wkf)
    with L169 assms show ?thesis
      by (intro that(8) [of wkf]) (auto simp: barrier_step_def FileStack_size_def)
  qed
next
  case L170
  with assms show ?thesis
    by (intro that(9))
      (auto simp: barrier_step_def FileStack_poll_size_def split: if_splits)
next
  case L171
  with assms show ?thesis by (intro that(10)) (auto simp: barrier_step_def)
next
  case L173
  with assms show ?thesis
    by (intro that(11))
      (auto simp: barrier_step_def FileStack_poll_query_def split: if_splits)
next
  case L178
  show ?thesis
  proof (cases "file_list fr")
    case Nil
    with L178 assms show ?thesis by (intro that(13)) (auto simp: barrier_step_def)
  next
    case (Cons x xs)
    with L178 assms show ?thesis by (intro that(12) [of x xs]) (auto simp: barrier_step_def)
  qed
next
  case L179
  with assms show ?thesis by (intro that(14)) (auto simp: barrier_step_def)
next
  case L183
  with assms show ?thesis by (intro that(15)) (auto simp: barrier_step_def)
next
  case (Ret b)
  with assms show ?thesis by (simp add: barrier_step_def)
next
  case (Thrown e)
  with assms show ?thesis by (simp add: barrier_step_def)
qed

subsection \<open>Runs of a group\<close>

lemma barrier_name_eq: "get_barrier_file_name s step t k = barrier_name (barrier_file s) step t k"
  by (simp add: get_barrier_file_name_def barrier_name_def)

lemma barrier_name_inj:
  assumes "barrier_name bf step t i = barrier_name bf step u j"
  shows "t = u \<and> i = j"
proof -
  from assms have "t @ CHR ''_'' # to_string i = u @ CHR ''_'' # to_string j"
    by (simp add: barrier_name_def)
  then have "t = u \<and> to_string i = to_string j"
    by (rule last_segment) (rule to_string_no_underscore)+
  then show ?thesis by (simp add: to_string_inj)
qed

lemma barrier_name_cmd_ack [simp]:
  "barrier_name bf ''cmd'' t i \<noteq> barrier_name bf ''ack'' u j"
  "barrier_name bf ''ack'' u j \<noteq> barrier_name bf ''cmd'' t i"
  by (simp_all add: barrier_name_def)

lemma barrier_name_prefix [simp]: "prefix (bf @ ''_'') (barrier_name bf step t k)"
  by (simp add: barrier_name_def prefix_def)

lemma acked_mono: "acked ids h f r \<Longrightarrow> acked ids (h @ es) f r"
  by (auto simp: acked_def)

lemma msg_neq [simp]: "msg \<noteq> msg_ok" "msg_ok \<noteq> msg"
  by (simp_all add: msg_def msg_ok_def)

lemma get_stack_updates [simp]:
  "get_stack t (s\<lparr>continuous_cleanup_list := l\<rparr>) = get_stack t s"
  "get_stack t (s\<lparr>i_barrier := n\<rparr>) = get_stack t s"
  by (simp_all add: get_stack_def)

lemma local_inv_mono:
  "local_inv cfg bf wkf ws ids h i sf \<Longrightarrow> local_inv cfg bf wkf ws ids (h @ es) i sf"
  by (cases sf) (auto simp: local_inv_def intro: acked_mono)

lemma all_acked:
  assumes "acks_sound bf ids w h"
    and "length ws \<le> length (contents w (barrier_name bf ''ack'' t k))"
    and "set ids \<subseteq> set ws" and "distinct ws"
  shows "\<forall>r \<in> set ws. acked ids h (barrier_name bf ''ack'' t k) r"
proof -
  let ?C = "contents w (barrier_name bf ''ack'' t k)"
  from assms(1) have d: "distinct ?C"
    and a: "\<forall>x \<in> set ?C. acked ids h (barrier_name bf ''ack'' t k) x"
    by (simp_all add: acks_sound_def)
  from a have "set ?C \<subseteq> set ids" by (auto simp: acked_def)
  with assms(3) have sub: "set ?C \<subseteq> set ws" by blast
  from d have "card (set ?C) = length ?C" by (rule distinct_card)
  moreover from assms(4) have "card (set ws) = length ws" by (rule distinct_card)
  ultimately have "card (set ws) \<le> card (set ?C)" using assms(2) by simp
  with sub have "set ?C = set ws" by (intro card_seteq) simp_all
  with a show ?thesis by simp
qed

lemma local_inv_step_self:
  assumes inv: "local_inv cfg bf wkf ws ids h i (s, fr)"
    and step: "barrier_step cfg (s, fr) w = Some ((s1, fr1), w1, es)"
    and wk: "contents w wkf = ws"
    and acks: "acks_sound bf ids w h"
    and dist: "distinct ws"
  shows "local_inv cfg bf wkf ws ids (h @ map (Pair i) es) i (s1, fr1)"
  using step
proof (cases rule: barrier_step_cases)
  case reached
  with inv have names: "ack_file_name fr = barrier_name bf ''ack'' (tag fr) (i_barrier s)"
    and n: "n_workers fr = length ws"
    by (simp_all add: local_inv_def in_call_def)
  have "\<forall>r \<in> set ws. acked ids (h @ map (Pair i) es) (ack_file_name fr) r"
    if reg: "set ids \<subseteq> set ws"
  proof -
    from all_acked [OF acks _ reg dist, of "tag fr" "i_barrier s"] reached(2) names n
    have "\<forall>r \<in> set ws. acked ids h (ack_file_name fr) r" by simp
    then show ?thesis by (blast intro: acked_mono)
  qed
  with inv reached n show ?thesis
    by (simp add: local_inv_def in_call_def)
next
  case (sized wkf1)
  with inv wk show ?thesis by (simp add: local_inv_def in_call_def)
qed (use inv in \<open>simp_all add: local_inv_def in_call_def barrier_name_eq\<close>)

lemma wkf_kept:
  assumes inv: "local_inv cfg bf wkf ws ids h i (s, fr)"
    and step: "barrier_step cfg (s, fr) w = Some ((s1, fr1), w1, es)"
    and np: "\<not> prefix (bf @ ''_'') wkf"
  shows "contents w1 wkf = contents w wkf"
proof -
  have ne: "wkf \<noteq> barrier_name bf step t k" for step t k
    using np barrier_name_prefix [of bf step t k] by auto
  from step show ?thesis
  proof (cases rule: barrier_step_cases)
    case (unlinked x xs)
    with inv have "prefix (bf @ ''_'') x" by (simp add: local_inv_def)
    with np have "wkf \<noteq> x" by auto
    with unlinked show ?thesis by simp
  qed (use inv ne in \<open>simp_all add: local_inv_def in_call_def\<close>)
qed


lemma pushes_recorded_step:
  assumes pr: "pushes_recorded bf ids ps h"
    and inv: "local_inv cfg bf wkf ws ids h i (s, fr)"
    and i: "i < length ids" "length ps = length ids" and p: "ps ! i = (s, fr)"
    and step: "barrier_step cfg (s, fr) w = Some ((s1, fr1), w1, es)"
  shows "pushes_recorded bf ids (ps[i := (s1, fr1)]) (h @ map (Pair i) es)"
proof -
  have old: "k < i_barrier (fst ((ps[i := (s1, fr1)]) ! j)) \<or>
         (k = i_barrier (fst ((ps[i := (s1, fr1)]) ! j)) \<and> t = tag (snd ((ps[i := (s1, fr1)]) ! j))
          \<and> post_ack (pc (snd ((ps[i := (s1, fr1)]) ! j))))"
    if "(j, Pushed (barrier_name bf ''ack'' t k) x) \<in> set h" for j t k x
  proof -
    from pr that have o: "k < i_barrier (fst (ps ! j)) \<or>
         (k = i_barrier (fst (ps ! j)) \<and> t = tag (snd (ps ! j)) \<and> post_ack (pc (snd (ps ! j))))"
      by (simp add: pushes_recorded_def)
    show ?thesis
    proof (cases "j = i")
      case False
      with o show ?thesis by simp
    next
      case True
      with o p i have o1: "k < i_barrier s \<or> (k = i_barrier s \<and> t = tag fr \<and> post_ack (pc fr))"
        by simp
      from step have "k < i_barrier s1 \<or> (k = i_barrier s1 \<and> t = tag fr1 \<and> post_ack (pc fr1))"
        by (cases rule: barrier_step_cases) (use o1 in \<open>auto simp: post_ack_def\<close>)
      with True i show ?thesis by simp
    qed
  qed
  have new: "x = ids ! i \<and> t = tag fr1 \<and> k = i_barrier s1 \<and> post_ack (pc fr1)"
    if "Pushed (barrier_name bf ''ack'' t k) x \<in> set es" for t k x
    using step
  proof (cases rule: barrier_step_cases)
    case ack
    with inv have n: "ack_file_name fr = barrier_name bf ''ack'' (tag fr) (i_barrier s)"
      and d: "id_str s = ids ! i"
      by (simp_all add: local_inv_def in_call_def)
    from that ack n have "barrier_name bf ''ack'' t k = barrier_name bf ''ack'' (tag fr) (i_barrier s)"
      and "x = id_str s" by simp_all
    with barrier_name_inj [of bf "''ack''" t k "tag fr" "i_barrier s"] ack d
    show ?thesis by (simp add: post_ack_def)
  next
    case wait
    with inv that show ?thesis by (simp add: local_inv_def in_call_def)
  next
    case goon
    with inv that show ?thesis by (simp add: local_inv_def in_call_def)
  qed (use that in simp_all)
  show ?thesis
    unfolding pushes_recorded_def
  proof (intro allI impI)
    fix j t k x
    assume "(j, Pushed (barrier_name bf ''ack'' t k) x) \<in> set (h @ map (Pair i) es)"
    then consider "(j, Pushed (barrier_name bf ''ack'' t k) x) \<in> set h"
      | "j = i" "Pushed (barrier_name bf ''ack'' t k) x \<in> set es"
      by auto
    then show "j < length ids \<and> x = ids ! j \<and>
        (k < i_barrier (fst (ps[i := (s1, fr1)] ! j)) \<or>
         k = i_barrier (fst (ps[i := (s1, fr1)] ! j)) \<and> t = tag (snd (ps[i := (s1, fr1)] ! j))
         \<and> post_ack (pc (snd (ps[i := (s1, fr1)] ! j))))"
    proof cases
      case 1
      with pr old [OF 1] show ?thesis by (simp add: pushes_recorded_def)
    next
      case 2
      with new [OF 2(2)] i show ?thesis by simp
    qed
  qed
qed

lemma local_invD:
  assumes "local_inv cfg bf wkf ws ids h i (s, fr)"
  shows "id_str s = ids ! i"
    and "in_call (pc fr) \<Longrightarrow> cmd_file_name fr = barrier_name bf ''cmd'' (tag fr) (i_barrier s)"
    and "in_call (pc fr) \<Longrightarrow> ack_file_name fr = barrier_name bf ''ack'' (tag fr) (i_barrier s)"
    and "pc fr = L171 \<Longrightarrow> (i, SizeReached (ack_file_name fr) (length ws)) \<in> set h"
    and "pc fr = L171 \<Longrightarrow> set ids \<subseteq> set ws \<Longrightarrow> \<forall>r \<in> set ws. acked ids h (ack_file_name fr) r"
    and "pc fr = L178 \<Longrightarrow> \<forall>f \<in> set (file_list fr). prefix (bf @ ''_'') f"
  using assms by (simp_all add: local_inv_def)

lemma acks_sound_step:
  assumes as: "acks_sound bf ids w h"
    and pr: "pushes_recorded bf ids ps h"
    and inv: "local_inv cfg bf wkf ws ids h i (s, fr)"
    and i: "i < length ids" and p: "ps ! i = (s, fr)" and di: "distinct ids"
    and step: "barrier_step cfg (s, fr) w = Some ((s1, fr1), w1, es)"
  shows "acks_sound bf ids w1 (h @ map (Pair i) es)"
proof -
  note D = local_invD [OF inv]
  have old: "distinct (contents w (barrier_name bf ''ack'' t k))"
    "\<forall>x \<in> set (contents w (barrier_name bf ''ack'' t k)).
        acked ids (h @ map (Pair i) es) (barrier_name bf ''ack'' t k) x" for t k
    using as by (auto simp: acks_sound_def intro: acked_mono)
  from step show ?thesis
  proof (cases rule: barrier_step_cases)
    case ack
    let ?a = "barrier_name bf ''ack'' (tag fr) (i_barrier s)"
    from ack D have a: "ack_file_name fr = ?a" by (simp add: in_call_def)
    have fresh: "id_str s \<notin> set (contents w ?a)"
    proof
      assume "id_str s \<in> set (contents w ?a)"
      with as have "acked ids h ?a (id_str s)" by (simp add: acks_sound_def)
      then obtain j where j: "j < length ids" "ids ! j = id_str s"
        "(j, Pushed ?a (id_str s)) \<in> set h"
        by (auto simp: acked_def)
      from j(1,2) i di D(1) have ji: "j = i" by (simp add: nth_eq_iff_index_eq)
      from pr j(3) have "i_barrier s < i_barrier (fst (ps ! j)) \<or>
          (i_barrier s = i_barrier (fst (ps ! j)) \<and> tag fr = tag (snd (ps ! j))
           \<and> post_ack (pc (snd (ps ! j))))"
        unfolding pushes_recorded_def by blast
      with ji p ack(1) show False by (simp add: post_ack_def)
    qed
    have new: "acked ids (h @ map (Pair i) es) ?a (id_str s)"
      using ack a i D(1) by (auto simp: acked_def)
    show ?thesis
      unfolding acks_sound_def
    proof (intro allI conjI)
      fix t k
      show "distinct (contents w1 (barrier_name bf ''ack'' t k))"
        using ack a old(1) [of t k] fresh by auto
      show "\<forall>x \<in> set (contents w1 (barrier_name bf ''ack'' t k)).
              acked ids (h @ map (Pair i) es) (barrier_name bf ''ack'' t k) x"
        using ack(4) a old(2) [of t k] new by auto
    qed
  next
    case clear
    with old show ?thesis by (auto simp: acks_sound_def)
  next
    case wait
    with old D show ?thesis by (auto simp: acks_sound_def in_call_def)
  next
    case goon
    with old D show ?thesis by (auto simp: acks_sound_def in_call_def)
  next
    case (unlinked x xs)
    with old show ?thesis by (auto simp: acks_sound_def)
  qed (use old in \<open>auto simp: acks_sound_def\<close>)
qed

lemma goon_sound_step:
  assumes gs: "goon_sound bf ids ws w h"
    and inv: "local_inv cfg bf wkf ws ids h i (s, fr)"
    and step: "barrier_step cfg (s, fr) w = Some ((s1, fr1), w1, es)"
    and reg: "set ids \<subseteq> set ws"
  shows "goon_sound bf ids ws w1 (h @ map (Pair i) es)"
proof -
  note D = local_invD [OF inv]
  have old: "\<forall>r \<in> set ws. acked ids (h @ map (Pair i) es) (barrier_name bf ''ack'' t k) r"
    if "msg_ok \<in> set (contents w (barrier_name bf ''cmd'' t k))" for t k
    using gs that by (auto simp: goon_sound_def intro: acked_mono)
  from step show ?thesis
  proof (cases rule: barrier_step_cases)
    case goon
    with D reg have c: "cmd_file_name fr = barrier_name bf ''cmd'' (tag fr) (i_barrier s)"
      and a: "ack_file_name fr = barrier_name bf ''ack'' (tag fr) (i_barrier s)"
      and r: "\<forall>r \<in> set ws. acked ids h (ack_file_name fr) r"
      by (simp_all add: in_call_def)
    show ?thesis
      unfolding goon_sound_def
    proof (intro allI impI)
      fix t k
      assume m: "msg_ok \<in> set (contents w1 (barrier_name bf ''cmd'' t k))"
      show "\<forall>r \<in> set ws. acked ids (h @ map (Pair i) es) (barrier_name bf ''ack'' t k) r"
      proof (cases "barrier_name bf ''cmd'' t k = cmd_file_name fr")
        case True
        with c barrier_name_inj [of bf "''cmd''" t k "tag fr" "i_barrier s"]
        have "t = tag fr \<and> k = i_barrier s" by simp
        with a r show ?thesis by (auto intro: acked_mono)
      next
        case False
        with m goon have "msg_ok \<in> set (contents w (barrier_name bf ''cmd'' t k))" by simp
        then show ?thesis by (rule old)
      qed
    qed
  next
    case wait
    with old show ?thesis by (auto simp: goon_sound_def split: if_splits)
  next
    case ack
    with old D show ?thesis by (auto simp: goon_sound_def in_call_def split: if_splits)
  next
    case clear
    with old D show ?thesis by (auto simp: goon_sound_def in_call_def split: if_splits)
  next
    case (unlinked x xs)
    with old show ?thesis by (auto simp: goon_sound_def split: if_splits)
  qed (use old in \<open>auto simp: goon_sound_def\<close>)
qed

lemma ordered_acks_snoc:
  assumes "ordered_acks bf ids ws h"
    and "\<forall>t k. e = (i, Observed (barrier_name bf ''cmd'' t k) msg_ok)
            \<longrightarrow> (\<forall>r \<in> set ws. acked ids h (barrier_name bf ''ack'' t k) r)"
    and "fst e = i"
  shows "ordered_acks bf ids ws (h @ [e])"
  unfolding ordered_acks_def
proof (intro allI impI)
  fix n j t k
  assume a: "n < length (h @ [e]) \<and> (h @ [e]) ! n = (j, Observed (barrier_name bf ''cmd'' t k) msg_ok)"
  show "\<forall>r \<in> set ws. acked ids (take n (h @ [e])) (barrier_name bf ''ack'' t k) r"
  proof (cases "n < length h")
    case True
    with a assms(1) show ?thesis by (simp add: ordered_acks_def nth_append)
  next
    case False
    with a have n: "n = length h" by simp
    with a assms(3) have "e = (i, Observed (barrier_name bf ''cmd'' t k) msg_ok)" by auto
    with assms(2) n show ?thesis by simp
  qed
qed

lemma ordered_size_snoc:
  assumes "ordered_size bf ws h"
    and "\<forall>t k. e = (i, Pushed (barrier_name bf ''cmd'' t k) msg_ok)
            \<longrightarrow> (i, SizeReached (barrier_name bf ''ack'' t k) (length ws)) \<in> set h"
    and "fst e = i"
  shows "ordered_size bf ws (h @ [e])"
  unfolding ordered_size_def
proof (intro allI impI)
  fix m j t k
  assume a: "m < length (h @ [e]) \<and> (h @ [e]) ! m = (j, Pushed (barrier_name bf ''cmd'' t k) msg_ok)"
  show "(j, SizeReached (barrier_name bf ''ack'' t k) (length ws)) \<in> set (take m (h @ [e]))"
  proof (cases "m < length h")
    case True
    with a assms(1) show ?thesis by (simp add: ordered_size_def nth_append)
  next
    case False
    with a have n: "m = length h" by simp
    with a assms(3) have "e = (i, Pushed (barrier_name bf ''cmd'' t k) msg_ok) \<and> j = i" by auto
    with assms(2) n show ?thesis by simp
  qed
qed

lemma ordered_acks_step:
  assumes od: "ordered_acks bf ids ws h"
    and gs: "goon_sound bf ids ws w h"
    and inv: "local_inv cfg bf wkf ws ids h i (s, fr)"
    and step: "barrier_step cfg (s, fr) w = Some ((s1, fr1), w1, es)"
  shows "ordered_acks bf ids ws (h @ map (Pair i) es)"
proof -
  note D = local_invD [OF inv]
  from step show ?thesis
  proof (cases rule: barrier_step_cases)
    case saw_goon
    have "ordered_acks bf ids ws (h @ [(i, Observed (cmd_file_name fr) msg_ok)])"
    proof (rule ordered_acks_snoc [OF od])
      show "\<forall>t k. (i, Observed (cmd_file_name fr) msg_ok)
                = (i, Observed (barrier_name bf ''cmd'' t k) msg_ok)
            \<longrightarrow> (\<forall>r \<in> set ws. acked ids h (barrier_name bf ''ack'' t k) r)"
        using gs saw_goon(2) by (auto simp: goon_sound_def)
    qed simp
    with saw_goon show ?thesis by simp
  next
    case goon
    have "ordered_acks bf ids ws (h @ [(i, Pushed (cmd_file_name fr) msg_ok)])"
      by (rule ordered_acks_snoc [OF od]) simp_all
    with goon show ?thesis by simp
  next
    case wait
    have "ordered_acks bf ids ws (h @ [(i, Pushed (cmd_file_name fr) msg)])"
      by (rule ordered_acks_snoc [OF od]) simp_all
    with wait show ?thesis by simp
  next
    case saw_wait
    have "ordered_acks bf ids ws (h @ [(i, Observed (cmd_file_name fr) msg)])"
      by (rule ordered_acks_snoc [OF od]) simp_all
    with saw_wait show ?thesis by simp
  next
    case ack
    have "ordered_acks bf ids ws (h @ [(i, Pushed (ack_file_name fr) (id_str s))])"
      by (rule ordered_acks_snoc [OF od]) simp_all
    with ack show ?thesis by simp
  next
    case clear
    have "ordered_acks bf ids ws (h @ [(i, Cleared (ack_file_name fr))])"
      by (rule ordered_acks_snoc [OF od]) simp_all
    with clear show ?thesis by simp
  next
    case reached
    have "ordered_acks bf ids ws (h @ [(i, SizeReached (ack_file_name fr) (n_workers fr))])"
      by (rule ordered_acks_snoc [OF od]) simp_all
    with reached show ?thesis by simp
  next
    case (unlinked x xs)
    have "ordered_acks bf ids ws (h @ [(i, Unlinked x)])"
      by (rule ordered_acks_snoc [OF od]) simp_all
    with unlinked show ?thesis by simp
  qed (use od in simp_all)
qed

lemma ordered_size_step:
  assumes od: "ordered_size bf ws h"
    and inv: "local_inv cfg bf wkf ws ids h i (s, fr)"
    and step: "barrier_step cfg (s, fr) w = Some ((s1, fr1), w1, es)"
  shows "ordered_size bf ws (h @ map (Pair i) es)"
proof -
  note D = local_invD [OF inv]
  from step show ?thesis
  proof (cases rule: barrier_step_cases)
    case goon
    with D have c: "cmd_file_name fr = barrier_name bf ''cmd'' (tag fr) (i_barrier s)"
      and a: "ack_file_name fr = barrier_name bf ''ack'' (tag fr) (i_barrier s)"
      and r: "(i, SizeReached (ack_file_name fr) (length ws)) \<in> set h"
      by (simp_all add: in_call_def)
    have "ordered_size bf ws (h @ [(i, Pushed (cmd_file_name fr) msg_ok)])"
    proof (rule ordered_size_snoc [OF od])
      show "\<forall>t k. (i, Pushed (cmd_file_name fr) msg_ok)
                = (i, Pushed (barrier_name bf ''cmd'' t k) msg_ok)
            \<longrightarrow> (i, SizeReached (barrier_name bf ''ack'' t k) (length ws)) \<in> set h"
      proof (intro allI impI)
        fix t k
        assume "(i, Pushed (cmd_file_name fr) msg_ok)
                = (i, Pushed (barrier_name bf ''cmd'' t k) msg_ok)"
        with c barrier_name_inj [of bf "''cmd''" t k "tag fr" "i_barrier s"]
        have "t = tag fr \<and> k = i_barrier s" by simp
        with a r show "(i, SizeReached (barrier_name bf ''ack'' t k) (length ws)) \<in> set h"
          by simp
      qed
    qed simp
    with goon show ?thesis by simp
  next
    case saw_goon
    have "ordered_size bf ws (h @ [(i, Observed (cmd_file_name fr) msg_ok)])"
      by (rule ordered_size_snoc [OF od]) simp_all
    with saw_goon show ?thesis by simp
  next
    case wait
    have "ordered_size bf ws (h @ [(i, Pushed (cmd_file_name fr) msg)])"
      by (rule ordered_size_snoc [OF od]) simp_all
    with wait show ?thesis by simp
  next
    case saw_wait
    have "ordered_size bf ws (h @ [(i, Observed (cmd_file_name fr) msg)])"
      by (rule ordered_size_snoc [OF od]) simp_all
    with saw_wait show ?thesis by simp
  next
    case ack
    with D have a: "ack_file_name fr = barrier_name bf ''ack'' (tag fr) (i_barrier s)"
      by (simp add: in_call_def)
    have "ordered_size bf ws (h @ [(i, Pushed (ack_file_name fr) (id_str s))])"
      by (rule ordered_size_snoc [OF od]) (simp_all add: a)
    with ack show ?thesis by simp
  next
    case clear
    have "ordered_size bf ws (h @ [(i, Cleared (ack_file_name fr))])"
      by (rule ordered_size_snoc [OF od]) simp_all
    with clear show ?thesis by simp
  next
    case reached
    have "ordered_size bf ws (h @ [(i, SizeReached (ack_file_name fr) (n_workers fr))])"
      by (rule ordered_size_snoc [OF od]) simp_all
    with reached show ?thesis by simp
  next
    case (unlinked x xs)
    have "ordered_size bf ws (h @ [(i, Unlinked x)])"
      by (rule ordered_size_snoc [OF od]) simp_all
    with unlinked show ?thesis by simp
  qed (use od in simp_all)
qed

lemma local_inv_reframe:
  assumes "local_inv cfg bf wkf ws ids h i (s, fr)" and "\<not> in_call (pc fr1)"
  shows "local_inv cfg bf wkf ws ids h i (s, fr1)"
  using assms by (cases "pc fr1") (simp_all add: local_inv_def in_call_def)

lemma pushes_recorded_reframe:
  assumes "pushes_recorded bf ids ps h" and "\<not> post_ack (pc (snd (ps ! i)))"
    and "i < length ps"
  shows "pushes_recorded bf ids (ps[i := (fst (ps ! i), fr1)]) h"
  unfolding pushes_recorded_def
proof (intro allI impI)
  fix j t k x
  assume a: "(j, Pushed (barrier_name bf ''ack'' t k) x) \<in> set h"
  with assms(1) have o: "j < length ids \<and> x = ids ! j \<and>
        (k < i_barrier (fst (ps ! j)) \<or>
         k = i_barrier (fst (ps ! j)) \<and> t = tag (snd (ps ! j)) \<and> post_ack (pc (snd (ps ! j))))"
    unfolding pushes_recorded_def by blast
  show "j < length ids \<and> x = ids ! j \<and>
        (k < i_barrier (fst (ps[i := (fst (ps ! i), fr1)] ! j)) \<or>
         k = i_barrier (fst (ps[i := (fst (ps ! i), fr1)] ! j))
         \<and> t = tag (snd (ps[i := (fst (ps ! i), fr1)] ! j))
         \<and> post_ack (pc (snd (ps[i := (fst (ps ! i), fr1)] ! j))))"
  proof (cases "j = i")
    case True
    with o assms(2,3) show ?thesis by auto
  next
    case False
    with o show ?thesis by simp
  qed
qed

lemma sys_inv_reframe:
  assumes inv: "sys_inv cfg bf wkf ws ids g" and i: "i < length (procs g)"
    and a: "\<not> post_ack (pc (snd (procs g ! i)))" and b: "\<not> in_call (pc fr1)"
  shows "sys_inv cfg bf wkf ws ids (g\<lparr>procs := (procs g)[i := (fst (procs g ! i), fr1)]\<rparr>)"
proof -
  have "local_inv cfg bf wkf ws ids (history g) j ((procs g)[i := (fst (procs g ! i), fr1)] ! j)"
    if "j < length ids" for j
  proof (cases "j = i")
    case True
    from inv that have "local_inv cfg bf wkf ws ids (history g) j (procs g ! j)"
      by (simp add: sys_inv_def)
    with True have "local_inv cfg bf wkf ws ids (history g) i (fst (procs g ! i), snd (procs g ! i))"
      by simp
    from local_inv_reframe [OF this b] True i show ?thesis by simp
  next
    case False
    with inv that show ?thesis by (simp add: sys_inv_def)
  qed
  with inv pushes_recorded_reframe [of bf ids "procs g" "history g" i fr1] a i
  show ?thesis by (simp add: sys_inv_def)
qed

lemma sys_inv_Do:
  assumes inv: "sys_inv cfg bf wkf ws ids g" and i: "i < length (procs g)"
    and p: "procs g ! i = (s, fr)"
    and step: "barrier_step cfg (s, fr) (shared g) = Some ((s1, fr1), w1, es)"
    and di: "distinct ids" and dw: "distinct ws"
    and np: "\<not> prefix (bf @ ''_'') wkf"
  shows "sys_inv cfg bf wkf ws ids
           (g\<lparr>procs := (procs g)[i := (s1, fr1)], shared := w1,
              history := history g @ map (Pair i) es\<rparr>)"
proof -
  from inv have len: "length (procs g) = length ids"
    and loc: "\<And>j. j < length ids \<Longrightarrow> local_inv cfg bf wkf ws ids (history g) j (procs g ! j)"
    and wk: "contents (shared g) wkf = ws"
    and pr: "pushes_recorded bf ids (procs g) (history g)"
    and as: "acks_sound bf ids (shared g) (history g)"
    and os: "ordered_size bf ws (history g)"
    and gs: "set ids \<subseteq> set ws \<Longrightarrow> goon_sound bf ids ws (shared g) (history g)"
    and od: "set ids \<subseteq> set ws \<Longrightarrow> ordered_acks bf ids ws (history g)"
    by (simp_all add: sys_inv_def)
  from i len have i1: "i < length ids" by simp
  from loc [OF i1] p have li: "local_inv cfg bf wkf ws ids (history g) i (s, fr)" by simp
  have 1: "local_inv cfg bf wkf ws ids (history g @ map (Pair i) es) j
             ((procs g)[i := (s1, fr1)] ! j)" if "j < length ids" for j
  proof (cases "j = i")
    case True
    with local_inv_step_self [OF li step wk as dw] i show ?thesis by simp
  next
    case False
    with local_inv_mono [OF loc [OF that]] show ?thesis by simp
  qed
  have 2: "contents w1 wkf = ws" using wkf_kept [OF li step np] wk by simp
  have 3: "pushes_recorded bf ids ((procs g)[i := (s1, fr1)]) (history g @ map (Pair i) es)"
    by (rule pushes_recorded_step [OF pr li i1 len p step])
  have 4: "acks_sound bf ids w1 (history g @ map (Pair i) es)"
    by (rule acks_sound_step [OF as pr li i1 p di step])
  have 5: "ordered_size bf ws (history g @ map (Pair i) es)"
    by (rule ordered_size_step [OF os li step])
  have 6: "goon_sound bf ids ws w1 (history g @ map (Pair i) es)
      \<and> ordered_acks bf ids ws (history g @ map (Pair i) es)" if reg: "set ids \<subseteq> set ws"
    using goon_sound_step [OF gs [OF reg] li step reg]
      ordered_acks_step [OF od [OF reg] gs [OF reg] li step]
    by simp
  from len 1 2 3 4 5 6 show ?thesis by (simp add: sys_inv_def)
qed

lemma sys_inv_step:
  assumes inv: "sys_inv cfg bf wkf ws ids g" and step: "sys_step cfg a g = Some g1"
    and di: "distinct ids" and dw: "distinct ws"
    and np: "\<not> prefix (bf @ ''_'') wkf"
  shows "sys_inv cfg bf wkf ws ids g1"
proof (cases a)
  case (Call i t)
  with step have i: "i < length (procs g)" and idle: "pc (snd (procs g ! i)) = Idle"
    and g1: "g1 = g\<lparr>procs := (procs g)[i := (fst (procs g ! i), call_barrier t)]\<rparr>"
    by (auto simp: sys_step_def split: if_splits)
  have "\<not> post_ack (pc (snd (procs g ! i)))" "\<not> in_call (pc (call_barrier t))"
    using idle by (simp_all add: post_ack_def in_call_def call_barrier_def)
  from sys_inv_reframe [OF inv i this] g1 show ?thesis by simp
next
  case (Do i)
  obtain s fr where p: "procs g ! i = (s, fr)" by (cases "procs g ! i")
  from step Do p obtain s1 fr1 w1 es where i: "i < length (procs g)"
    and b: "barrier_step cfg (s, fr) (shared g) = Some ((s1, fr1), w1, es)"
    and g1: "g1 = g\<lparr>procs := (procs g)[i := (s1, fr1)], shared := w1,
                    history := history g @ map (Pair i) es\<rparr>"
    by (auto simp: sys_step_def split: if_splits option.splits)
  from sys_inv_Do [OF inv i p b di dw np] g1 show ?thesis by simp
next
  case (Return i)
  with step obtain b where i: "i < length (procs g)" and ret: "pc (snd (procs g ! i)) = Ret b"
    and g1: "g1 = g\<lparr>procs := (procs g)[i := (fst (procs g ! i), (snd (procs g ! i))\<lparr>pc := Idle\<rparr>)]\<rparr>"
    by (auto simp: sys_step_def split: if_splits label.splits)
  have "\<not> post_ack (pc (snd (procs g ! i)))" "\<not> in_call (pc ((snd (procs g ! i))\<lparr>pc := Idle\<rparr>))"
    using ret by (simp_all add: post_ack_def in_call_def)
  from sys_inv_reframe [OF inv i this] g1 show ?thesis by simp
qed

lemma contents_absent: "f \<notin> set (map fst (files w)) \<Longrightarrow> contents w f = []"
  by (simp add: contents_def map_of_eq_None_iff [THEN iffD2])

lemma sys_inv_init:
  assumes g: "group cfg bf wkf g"
  shows "sys_inv cfg bf wkf (contents (shared g) wkf) (map (\<lambda>sf. id_str (fst sf)) (procs g)) g"
proof -
  have empty: "contents (shared g) (barrier_name bf step t k) = []" for step t k
  proof (rule contents_absent)
    from g have "\<forall>f \<in> set (map fst (files (shared g))). \<not> prefix (bf @ ''_'') f"
      by (simp add: group_def)
    with barrier_name_prefix [of bf step t k]
    show "barrier_name bf step t k \<notin> set (map fst (files (shared g)))" by blast
  qed
  have loc: "local_inv cfg bf wkf (contents (shared g) wkf) (map (\<lambda>sf. id_str (fst sf)) (procs g))
               (history g) i (procs g ! i)" if "i < length (procs g)" for i
  proof -
    from that have "procs g ! i \<in> set (procs g)" by simp
    with g have "barrier_file (fst (procs g ! i)) = bf
        \<and> get_stack (WORKERS cfg) (fst (procs g ! i)) = Inr wkf
        \<and> continuous_cleanup_list (fst (procs g ! i)) = [] \<and> pc (snd (procs g ! i)) = Idle"
      unfolding group_def by blast
    with that show ?thesis
      by (cases "procs g ! i") (simp add: local_inv_def in_call_def)
  qed
  from g have h: "history g = []" by (simp add: group_def)
  from loc h empty show ?thesis
    by (simp add: sys_inv_def pushes_recorded_def acks_sound_def goon_sound_def ordered_acks_def
        ordered_size_def)
qed

lemma sys_inv_reach:
  assumes "reach cfg g0 g" and "sys_inv cfg bf wkf ws ids g0"
    and "distinct ids" and "distinct ws"
    and "\<not> prefix (bf @ ''_'') wkf"
  shows "sys_inv cfg bf wkf ws ids g"
  using assms
proof (induction rule: reach.induct)
  case reach_init
  then show ?case by simp
next
  case (reach_step g a g1)
  then show ?case using sys_inv_step by blast
qed

lemma sys_run_reach: "sys_run cfg as g = Some g1 \<Longrightarrow> reach cfg g0 g \<Longrightarrow> reach cfg g0 g1"
proof (induction as arbitrary: g)
  case Nil
  then show ?case by simp
next
  case (Cons a as)
  from Cons.prems(1) obtain g2 where s: "sys_step cfg a g = Some g2"
    and r: "sys_run cfg as g2 = Some g1"
    by (auto split: option.splits)
  from Cons.prems(2) s have "reach cfg g0 g2" by (rule reach_step)
  with r show ?case by (rule Cons.IH)
qed

lemma group_example: "group example_config ''wd/barrier'' ''wd/workers'' (example_group [0, 1, 2])"
  by code_simp

lemma group_example_registered:
  "group example_config ''wd/barrier'' ''wd/workers'' (example_group [0, 1])"
  "all_registered ''wd/workers'' (example_group [0, 1])"
  by code_simp+

lemma straggler_run:
  "map_option history (sys_run example_config straggler_schedule (example_group [0, 1, 2]))
   = Some straggler_events"
  by code_simp

lemma group_run:
  "map_option history (sys_run example_config group_schedule (example_group [0, 1]))
   = Some group_events"
  by code_simp

subsection \<open>The ordering guarantee\<close>

text \<open>
  Claim C1 as stated fails: the coordinator counts the acknowledgments, it does not look
  at who sent them. In the group of the ranks 0, 1 and 2 whose workers queue holds the
  ranks 0 and 1, the processes of rank 0 and 2 acknowledge, the coordinator finds two
  values in the ack file and pushes \<open>GOON\<close>, and both observe it; the registered
  worker of rank 1 has pushed nothing.
\<close>

theorem barrier_ordering_counterexample:
  "group example_config ''wd/barrier'' ''wd/workers'' (example_group [0, 1, 2]) \<and>
   map_option history (sys_run example_config straggler_schedule (example_group [0, 1, 2]))
     = Some straggler_events \<and>
   contents (shared (example_group [0, 1, 2])) ''wd/workers'' = [''rank_0'', ''rank_1''] \<and>
   \<not> goon_after_acks (map fst (procs (example_group [0, 1, 2]))) [''rank_0'', ''rank_1'']
       straggler_events"
proof -
  let ?objs = "map fst (procs (example_group [0, 1, 2]))"
  have c: "contents (shared (example_group [0, 1, 2])) ''wd/workers'' = [''rank_0'', ''rank_1'']"
    by code_simp
  have o: "?objs = [(example_object 0)\<lparr>n_registered := 2\<rparr>,
                    (example_object 1)\<lparr>n_registered := 0\<rparr>,
                    (example_object 2)\<lparr>n_registered := 0\<rparr>]"
    by (simp add: example_group_def)
  have n: "get_barrier_file_name ((example_object 0)\<lparr>n_registered := 2\<rparr>) step ''x'' 0
      = ''wd/barrier_'' @ step @ ''_x_0''"
    for step
    by (simp add: get_barrier_file_name_def example_object_def to_string_0)
  have e: "straggler_events ! 8 = (0, Observed ''wd/barrier_cmd_x_0'' ''GOON'')"
    "length straggler_events = 10"
    by (simp_all add: straggler_events_def)
  have na: "\<not> acked (map id_str ?objs) (take 8 straggler_events) ''wd/barrier_ack_x_0'' ''rank_1''"
    by (auto simp: acked_def straggler_events_def)
  have "\<not> goon_after_acks ?objs [''rank_0'', ''rank_1''] straggler_events"
  proof
    assume "goon_after_acks ?objs [''rank_0'', ''rank_1''] straggler_events"
    then have "8 < length straggler_events \<and> 0 < length ?objs
          \<and> straggler_events ! 8
              = (0, Observed (get_barrier_file_name (?objs ! 0) ''cmd'' ''x'' 0) msg_ok)
        \<longrightarrow> (\<forall>r \<in> set [''rank_0'', ''rank_1''].
              acked (map id_str ?objs) (take 8 straggler_events)
                (get_barrier_file_name (?objs ! 0) ''ack'' ''x'' 0) r)"
      unfolding goon_after_acks_def by blast
    moreover have "?objs ! 0 = (example_object 0)\<lparr>n_registered := 2\<rparr>" "0 < length ?objs"
      by (simp_all add: o)
    ultimately have "acked (map id_str ?objs) (take 8 straggler_events)
        ''wd/barrier_ack_x_0'' ''rank_1''"
      using e by (simp add: n msg_ok_def)
    with na show False ..
  qed
  with group_example straggler_run c show ?thesis by blast
qed

text \<open>
  Claim C1, amended. In every run of a group in which every process is registered, a
  process observes \<open>GOON\<close> on the command file of a step only after every registered
  worker has pushed its own id onto the ack file of that step. In every run of any
  group, \<open>GOON\<close> is pushed only after the pushing process has found the ack file to
  hold as many values as there are registered workers.
\<close>

theorem barrier_ordering:
  assumes g: "group cfg bf wkf g0" and run: "reach cfg g0 g"
  shows "(all_registered wkf g0 \<longrightarrow>
            goon_after_acks (map fst (procs g0)) (contents (shared g0) wkf) (history g)) \<and>
         goon_after_size (map fst (procs g0)) (length (contents (shared g0) wkf)) (history g)"
proof -
  let ?objs = "map fst (procs g0)"
  let ?ids = "map (\<lambda>sf. id_str (fst sf)) (procs g0)"
  let ?ws = "contents (shared g0) wkf"
  have ids: "map id_str ?objs = ?ids" by simp
  from g have di: "distinct ?ids" and dw: "distinct ?ws" and np: "\<not> prefix (bf @ ''_'') wkf"
    by (simp_all add: group_def)
  note inv = sys_inv_reach [OF run sys_inv_init [OF g] di dw np]
  from inv have os: "ordered_size bf ?ws (history g)" by (simp add: sys_inv_def)
  have name: "get_barrier_file_name (?objs ! i) step t k = barrier_name bf step t k"
    if "i < length ?objs" for i step t k
  proof -
    from that have "procs g0 ! i \<in> set (procs g0)" by simp
    with g have "barrier_file (fst (procs g0 ! i)) = bf" unfolding group_def by blast
    with that show ?thesis by (simp add: barrier_name_eq)
  qed
  have a: "goon_after_acks ?objs ?ws (history g)" if r: "all_registered wkf g0"
    unfolding goon_after_acks_def
  proof (intro allI impI)
    fix n i t k
    from r have "set ?ids \<subseteq> set ?ws" by (auto simp: all_registered_def)
    with inv have od: "ordered_acks bf ?ids ?ws (history g)" by (simp add: sys_inv_def)
    assume h: "n < length (history g) \<and> i < length ?objs
        \<and> history g ! n = (i, Observed (get_barrier_file_name (?objs ! i) ''cmd'' t k) msg_ok)"
    then have "history g ! n = (i, Observed (barrier_name bf ''cmd'' t k) msg_ok)"
      by (simp only: name)
    with h od have "\<forall>r \<in> set ?ws. acked ?ids (take n (history g)) (barrier_name bf ''ack'' t k) r"
      unfolding ordered_acks_def by blast
    with h show "\<forall>r \<in> set ?ws. acked (map id_str ?objs) (take n (history g))
                     (get_barrier_file_name (?objs ! i) ''ack'' t k) r"
      by (simp only: name ids)
  qed
  have b: "goon_after_size ?objs (length ?ws) (history g)"
    unfolding goon_after_size_def
  proof (intro allI impI)
    fix m i t k
    assume h: "m < length (history g) \<and> i < length ?objs
        \<and> history g ! m = (i, Pushed (get_barrier_file_name (?objs ! i) ''cmd'' t k) msg_ok)"
    then have "history g ! m = (i, Pushed (barrier_name bf ''cmd'' t k) msg_ok)"
      by (simp only: name)
    with h os have "(i, SizeReached (barrier_name bf ''ack'' t k) (length ?ws))
        \<in> set (take m (history g))"
      unfolding ordered_size_def by blast
    with h show "(i, SizeReached (get_barrier_file_name (?objs ! i) ''ack'' t k) (length ?ws))
        \<in> set (take m (history g))"
      by (simp only: name)
  qed
  from a b show ?thesis by blast
qed

text \<open>
  The two registered processes meet at the barrier; in the run with the unregistered
  process too, the coordinator pushes \<open>GOON\<close> after the ack file has reached the
  size 2.
\<close>

theorem barrier_ordering_witness:
  "group example_config ''wd/barrier'' ''wd/workers'' (example_group [0, 1]) \<and>
   all_registered ''wd/workers'' (example_group [0, 1]) \<and>
   map_option history (sys_run example_config group_schedule (example_group [0, 1]))
     = Some group_events \<and>
   goon_after_acks (map fst (procs (example_group [0, 1]))) [''rank_0'', ''rank_1''] group_events \<and>
   goon_after_size (map fst (procs (example_group [0, 1]))) 2 group_events \<and>
   goon_after_size (map fst (procs (example_group [0, 1, 2]))) 2 straggler_events"
proof -
  from group_run obtain g1 where
    r: "sys_run example_config group_schedule (example_group [0, 1]) = Some g1"
    and h: "history g1 = group_events"
    by (cases "sys_run example_config group_schedule (example_group [0, 1])") auto
  from straggler_run obtain g2 where
    r2: "sys_run example_config straggler_schedule (example_group [0, 1, 2]) = Some g2"
    and h2: "history g2 = straggler_events"
    by (cases "sys_run example_config straggler_schedule (example_group [0, 1, 2])") auto
  have c: "contents (shared (example_group [0, 1])) ''wd/workers'' = [''rank_0'', ''rank_1'']"
    "contents (shared (example_group [0, 1, 2])) ''wd/workers'' = [''rank_0'', ''rank_1'']"
    by code_simp+
  from barrier_ordering [OF group_example_registered(1) sys_run_reach [OF r reach_init]]
    group_example_registered(2)
  have a: "goon_after_acks (map fst (procs (example_group [0, 1]))) [''rank_0'', ''rank_1''] group_events \<and>
      goon_after_size (map fst (procs (example_group [0, 1]))) 2 group_events"
    by (simp add: c h numeral_2_eq_2)
  from barrier_ordering [OF group_example sys_run_reach [OF r2 reach_init]]
  have b: "goon_after_size (map fst (procs (example_group [0, 1, 2]))) 2 straggler_events"
    by (simp add: c h2 numeral_2_eq_2)
  from a b group_example_registered group_run show ?thesis by blast
qed

end
